theory Spec2Isabelle
  imports Complex_Main "HOL-Library.AList"
begin

section \<open>Data model\<close>

text \<open>
  The two scripts of the repository work on documents loaded by \<^verbatim>\<open>json.load\<close>.
  A JSON value that the code only carries along is kept as a value of \<open>json\<close>;
  a Python \<^verbatim>\<open>dict\<close> is an association list in insertion order, written to with
  \<open>AList.update\<close> (an existing key keeps its place, a new key goes to the end, as in
  Python) and read with \<open>map_of\<close>.
\<close>

datatype json =
    JNull
  | JBool bool
  | JInt int
  | JFloat rat
  | JStr string
  | JList "json list"
  | JObj "(string \<times> json) list"

datatype error = KeyError | IndexError | AssertionError

text \<open>
  An entry of a node's \<^verbatim>\<open>inputs\<close> list is a dictionary with one key:
  \<^verbatim>\<open>{"Node": {"node_id", "output_index", "lambda"}}\<close>,
  \<^verbatim>\<open>{"Value": {"tagged_value", "exposed"}}\<close> or \<^verbatim>\<open>{"Network": type}\<close>;
  the constructors take the fields in this order.
\<close>

datatype node_input =
    Node int int bool
  | Value json bool
  | Network json

text \<open>
  A node of a network. \<open>position\<close> is \<^verbatim>\<open>node["metadata"]["position"]\<close>, the pair
  \<^verbatim>\<open>[x, y]\<close> of integers. Node ids are Python integers; the keys of a node
  dictionary are their decimal strings (\<^verbatim>\<open>str(id)\<close>, read back with \<^verbatim>\<open>int(key)\<close>)
  and are modelled by the integers themselves.
\<close>

record node =
  name :: string
  inputs :: "node_input list"
  manual_composition :: json
  has_primary_output :: bool
  implementation :: json
  position :: "int \<times> int"
  skip_deduplication :: bool
  world_state_hash :: int
  path :: json

type_synonym node_dict = "(int \<times> node) list"

text \<open>
  \<^verbatim>\<open>data["Layer"]["network"]\<close>: the code reads its \<^verbatim>\<open>nodes\<close> and the
  \<^verbatim>\<open>node_id\<close> of the entries of \<^verbatim>\<open>outputs\<close>.
\<close>

record network =
  nodes :: node_dict
  outputs :: "int list"

text \<open>
  The \<^verbatim>\<open>data\<close> of a legacy layer: a dictionary that may have a \<^verbatim>\<open>"Folder"\<close> key
  (whose \<^verbatim>\<open>layers\<close> are given here by the \<^verbatim>\<open>data\<close> of each child, the only field
  of a child the code reads) and may have a \<^verbatim>\<open>"Layer"\<close> key (its network).
\<close>

datatype data = Data (Folder: "data list option") (Layer: "network option")

text \<open>
  The module's global variables \<^verbatim>\<open>new_id\<close>, \<^verbatim>\<open>y_position\<close> and \<^verbatim>\<open>new_nodes\<close>.
  A generator is represented by the value its next \<^verbatim>\<open>next()\<close> will yield.
  (The global \<^verbatim>\<open>shift_left = 32\<close> is never read: \<^verbatim>\<open>update_layer\<close> assigns
  \<^verbatim>\<open>shift_left\<close>, which makes the name local to it.)
\<close>

record gstate =
  new_id :: int
  y_position :: int
  new_nodes :: node_dict

section \<open>Generators\<close>

definition gen_id :: int where
  "gen_id = 42"

definition gen_y :: int where
  "gen_y = 7"

definition next_new_id :: "gstate \<Rightarrow> int \<times> gstate" where
  "next_new_id s = (new_id s, s\<lparr>new_id := new_id s + 1\<rparr>)"

definition next_y_position :: "gstate \<Rightarrow> int \<times> gstate" where
  "next_y_position s = (y_position s, s\<lparr>y_position := y_position s + 3\<rparr>)"

section \<open>The build patcher\<close>

text \<open>
  \<^verbatim>\<open>patch_json\<close> of \<^verbatim>\<open>wasm/build.py\<close>. The state is the manifest stored in
  \<^verbatim>\<open>pkg/package.json\<close>, a JSON object; the function returns the manifest stored
  there afterwards. On the early \<^verbatim>\<open>return\<close> nothing is written.
\<close>

definition patch_json :: "(string \<times> json) list \<Rightarrow> (string \<times> json) list" where
  "patch_json manifest =
     (if ''dependencies'' \<in> set (map fst manifest) then manifest
      else AList.update ''dependencies''
             (JObj [(''graphite-frontend'', JStr ''file:../../frontend'')]) manifest)"


section \<open>The layer/folder tree flattener\<close>

subsection \<open>Iteration order of a Python set\<close>

text \<open>
  \<^verbatim>\<open>nodes\<close> is a Python \<^verbatim>\<open>set\<close> of key strings; the order in which it is iterated
  depends on the string hashes of the process and is the same each time the unchanged
  set is iterated. The order is a parameter \<open>h\<close> of the model: \<open>set_iter h ks\<close> is
  the enumeration \<open>h\<close> gives for the set of the elements \<open>ks\<close>. Whatever \<open>h\<close> is, the
  result enumerates each element of the set once: a value of \<open>h\<close> that does not is
  replaced by the order of first occurrence.
\<close>

definition set_iter :: "(int list \<Rightarrow> int list) \<Rightarrow> int list \<Rightarrow> int list" where
  "set_iter h ks = (if distinct (h ks) \<and> set (h ks) = set ks then h ks else remdups ks)"

subsection \<open>Drawing ids\<close>

text \<open>
  \<^verbatim>\<open>list(map(lambda x, _: x, new_id, layers))\<close>: at each step \<^verbatim>\<open>map\<close> asks its first
  iterable, the generator, for a value and then the list of layers; when the list is
  exhausted the value just drawn from the generator is dropped.
\<close>

fun new_layer_ids :: "'a list \<Rightarrow> gstate \<Rightarrow> int list \<times> gstate" where
  "new_layer_ids [] s = (let (x, s1) = next_new_id s in ([], s1))"
| "new_layer_ids (l # ls) s =
     (let (x, s1) = next_new_id s; (xs, s2) = new_layer_ids ls s1 in (x # xs, s2))"

text \<open>
  \<^verbatim>\<open>dict(zip(map(lambda id: int(id), nodes), new_id))\<close>: \<^verbatim>\<open>zip\<close> asks \<^verbatim>\<open>nodes\<close>
  first and draws from the generator only when there is a node left.
\<close>

fun zip_new_id :: "int list \<Rightarrow> gstate \<Rightarrow> (int \<times> int) list \<times> gstate" where
  "zip_new_id [] s = ([], s)"
| "zip_new_id (k # ks) s =
     (let (x, s1) = next_new_id s; (ps, s2) = zip_new_id ks s1 in ((k, x) # ps, s2))"

subsection \<open>Constants of the new schema\<close>

definition footprint :: json where
  "footprint = JObj [(''Concrete'', JObj [
     (''name'', JStr ''graphene_core::transform::Footprint''),
     (''size'', JInt 72),
     (''align'', JInt 8)])]"

definition transform_implementation :: json where
  "transform_implementation = JObj [(''Unresolved'', JObj [
     (''name'', JStr ''graphene_core::transform::TransformNode<_, _, _, _, _, _>'')])]"

definition cull_implementation :: json where
  "cull_implementation = JObj [(''Unresolved'', JObj [
     (''name'', JStr ''graphene_core::transform::CullNode<_>'')])]"

definition layer_implementation :: json where
  "layer_implementation =
  JObj [
    (''Network'', JObj [
      (''inputs'', JList [JInt 0, JInt 2, JInt 2, JInt 2, JInt 2, JInt 2, JInt 2, JInt 2]),
      (''outputs'', JList [JObj [(''node_id'', JInt 2), (''node_output_index'', JInt 0)]]),
      (''nodes'', JObj [
        (''1'', JObj [
          (''name'', JStr ''Monitor''),
          (''inputs'', JList [
            JObj [
              (''Node'', JObj [
                (''node_id'', JInt 0),
                (''output_index'', JInt 0),
                (''lambda'', JBool False)])]]),
          (''manual_composition'', JObj [
            (''Concrete'', JObj [
              (''name'', JStr ''graphene_core::transform::Footprint''),
              (''size'', JInt 72),
              (''align'', JInt 8)])]),
          (''has_primary_output'', JBool True),
          (''implementation'', JObj [
            (''Unresolved'', JObj [(''name'', JStr ''graphene_core::memo::MonitorNode<_, _, _>'')])]),
          (''metadata'', JObj [(''position'', JList [JInt 0, JInt 0])]),
          (''skip_deduplication'', JBool True),
          (''world_state_hash'', JInt 0),
          (''path'', JNull)]),
        (''2'', JObj [
          (''name'', JStr ''ConstructLayer''),
          (''inputs'', JList [
            JObj [
              (''Node'', JObj [
                (''node_id'', JInt 1),
                (''output_index'', JInt 0),
                (''lambda'', JBool False)])],
            JObj [
              (''Network'', JObj [
                (''Concrete'', JObj [
                  (''name'', JStr ''alloc::string::String''),
                  (''size'', JInt 12),
                  (''align'', JInt 4)])])],
            JObj [
              (''Network'', JObj [
                (''Concrete'', JObj [
                  (''name'', JStr ''graphene_core::raster::adjustments::BlendMode''),
                  (''size'', JInt 4),
                  (''align'', JInt 4)])])],
            JObj [
              (''Network'', JObj [
                (''Concrete'', JObj [(''name'', JStr ''f32''), (''size'', JInt 4), (''align'', JInt 4)])])],
            JObj [
              (''Network'', JObj [
                (''Concrete'', JObj [(''name'', JStr ''bool''), (''size'', JInt 1), (''align'', JInt 1)])])],
            JObj [
              (''Network'', JObj [
                (''Concrete'', JObj [(''name'', JStr ''bool''), (''size'', JInt 1), (''align'', JInt 1)])])],
            JObj [
              (''Network'', JObj [
                (''Concrete'', JObj [(''name'', JStr ''bool''), (''size'', JInt 1), (''align'', JInt 1)])])],
            JObj [
              (''Network'', JObj [
                (''Fn'', JList [
                  JObj [
                    (''Concrete'', JObj [
                      (''name'', JStr ''graphene_core::transform::Footprint''),
                      (''size'', JInt 72),
                      (''align'', JInt 8)])],
                  JObj [
                    (''Concrete'', JObj [
                      (''name'', JStr ''graphene_core::graphic_element::GraphicGroup''),
                      (''size'', JInt 12),
                      (''align'', JInt 4)])]])])]]),
          (''manual_composition'', JObj [
            (''Concrete'', JObj [
              (''name'', JStr ''graphene_core::transform::Footprint''),
              (''size'', JInt 72),
              (''align'', JInt 8)])]),
          (''has_primary_output'', JBool True),
          (''implementation'', JObj [
            (''Unresolved'', JObj [
              (''name'', JStr ''graphene_core::ConstructLayerNode<_, _, _, _, _, _, _, _>'')])]),
          (''metadata'', JObj [(''position'', JList [JInt 0, JInt 0])]),
          (''skip_deduplication'', JBool False),
          (''world_state_hash'', JInt 0),
          (''path'', JNull)]),
        (''0'', JObj [
          (''name'', JStr ''To Graphic Element''),
          (''inputs'', JList [JObj [(''Network'', JObj [(''Generic'', JStr ''T'')])]]),
          (''manual_composition'', JNull),
          (''has_primary_output'', JBool True),
          (''implementation'', JObj [
            (''Unresolved'', JObj [(''name'', JStr ''graphene_core::ToGraphicElementData'')])]),
          (''metadata'', JObj [(''position'', JList [JInt 0, JInt 0])]),
          (''skip_deduplication'', JBool False),
          (''world_state_hash'', JInt 0),
          (''path'', JNull)])]),
      (''disabled'', JList []),
      (''previous_outputs'', JNull)])]"

definition output_implementation :: json where
  "output_implementation =
  JObj [
    (''Network'', JObj [
      (''inputs'', JList [JInt 3, JInt 0]),
      (''outputs'', JList [JObj [(''node_id'', JInt 3), (''node_output_index'', JInt 0)]]),
      (''nodes'', JObj [
        (''1'', JObj [
          (''name'', JStr ''Create Canvas''),
          (''inputs'', JList [
            JObj [
              (''Node'', JObj [
                (''node_id'', JInt 0),
                (''output_index'', JInt 0),
                (''lambda'', JBool False)])]]),
          (''manual_composition'', JNull),
          (''has_primary_output'', JBool True),
          (''implementation'', JObj [
            (''Unresolved'', JObj [(''name'', JStr ''graphene_std::wasm_application_io::CreateSurfaceNode'')])]),
          (''metadata'', JObj [(''position'', JList [JInt 0, JInt 0])]),
          (''skip_deduplication'', JBool True),
          (''world_state_hash'', JInt 0),
          (''path'', JNull)]),
        (''3'', JObj [
          (''name'', JStr ''RenderNode''),
          (''inputs'', JList [
            JObj [
              (''Node'', JObj [
                (''node_id'', JInt 0),
                (''output_index'', JInt 0),
                (''lambda'', JBool False)])],
            JObj [
              (''Network'', JObj [
                (''Fn'', JList [
                  JObj [
                    (''Concrete'', JObj [
                      (''name'', JStr ''graphene_core::transform::Footprint''),
                      (''size'', JInt 72),
                      (''align'', JInt 8)])],
                  JObj [(''Generic'', JStr ''T'')]])])],
            JObj [
              (''Node'', JObj [
                (''node_id'', JInt 2),
                (''output_index'', JInt 0),
                (''lambda'', JBool False)])]]),
          (''manual_composition'', JNull),
          (''has_primary_output'', JBool True),
          (''implementation'', JObj [
            (''Unresolved'', JObj [(''name'', JStr ''graphene_std::wasm_application_io::RenderNode<_, _, _>'')])]),
          (''metadata'', JObj [(''position'', JList [JInt 0, JInt 0])]),
          (''skip_deduplication'', JBool False),
          (''world_state_hash'', JInt 0),
          (''path'', JNull)]),
        (''2'', JObj [
          (''name'', JStr ''Cache''),
          (''inputs'', JList [
            JObj [
              (''Node'', JObj [
                (''node_id'', JInt 1),
                (''output_index'', JInt 0),
                (''lambda'', JBool False)])]]),
          (''manual_composition'', JObj [
            (''Concrete'', JObj [(''name'', JStr ''()''), (''size'', JInt 0), (''align'', JInt 1)])]),
          (''has_primary_output'', JBool True),
          (''implementation'', JObj [
            (''Unresolved'', JObj [(''name'', JStr ''graphene_core::memo::MemoNode<_, _>'')])]),
          (''metadata'', JObj [(''position'', JList [JInt 0, JInt 0])]),
          (''skip_deduplication'', JBool False),
          (''world_state_hash'', JInt 0),
          (''path'', JNull)]),
        (''0'', JObj [
          (''name'', JStr ''EditorApi''),
          (''inputs'', JList [
            JObj [
              (''Network'', JObj [
                (''Concrete'', JObj [
                  (''name'', JStr ''graphene_core::application_io::EditorApi<graphene_std::wasm_application_io::WasmApplicationIo>''),
                  (''size'', JInt 176),
                  (''align'', JInt 8)])])]]),
          (''manual_composition'', JNull),
          (''has_primary_output'', JBool True),
          (''implementation'', JObj [(''Unresolved'', JObj [(''name'', JStr ''graphene_core::ops::IdNode'')])]),
          (''metadata'', JObj [(''position'', JList [JInt 0, JInt 0])]),
          (''skip_deduplication'', JBool False),
          (''world_state_hash'', JInt 0),
          (''path'', JNull)])]),
      (''disabled'', JList []),
      (''previous_outputs'', JNull)])]"

text \<open>
  \<^verbatim>\<open>node_to_input\<close>: the test \<^verbatim>\<open>if node_id\<close> is false for \<^verbatim>\<open>None\<close> and for \<^verbatim>\<open>0\<close>.
\<close>

definition node_to_input :: "int option \<Rightarrow> node_input" where
  "node_to_input node_id =
     (case node_id of
        None \<Rightarrow> Value (JObj [(''GraphicGroup'', JList [])]) True
      | Some n \<Rightarrow>
          if n \<noteq> 0 then Node n 0 False
          else Value (JObj [(''GraphicGroup'', JList [])]) True)"

definition layer_node :: "int option \<Rightarrow> int option \<Rightarrow> int \<Rightarrow> int \<Rightarrow> node" where
  "layer_node output next_id indent y =
     \<lparr>name = ''Layer'',
      inputs = [
        node_to_input output,
        Value (JObj [(''String'', JStr '''')]) False,
        Value (JObj [(''BlendMode'', JStr ''Normal'')]) False,
        Value (JObj [(''F32'', JFloat 100)]) False,
        Value (JObj [(''Bool'', JBool True)]) False,
        Value (JObj [(''Bool'', JBool False)]) False,
        Value (JObj [(''Bool'', JBool False)]) False,
        node_to_input next_id],
      manual_composition = JNull,
      has_primary_output = True,
      implementation = layer_implementation,
      position = (- indent, y),
      skip_deduplication = False,
      world_state_hash = 0,
      path = JNull\<rparr>"

text \<open>The node \<^verbatim>\<open>migrate\<close> stores under the key \<^verbatim>\<open>"0"\<close>.\<close>

definition root_output_node :: node where
  "root_output_node =
     \<lparr>name = ''Output'',
      inputs = [
        Node 42 0 False,
        Network (JObj [(''Concrete'', JObj [
          (''name'', JStr ''graphene_core::application_io::EditorApi<graphene_std::wasm_application_io::WasmApplicationIo>''),
          (''size'', JInt 176),
          (''align'', JInt 8)])])],
      manual_composition = JNull,
      has_primary_output = True,
      implementation = output_implementation,
      position = (8, 4),
      skip_deduplication = False,
      world_state_hash = 0,
      path = JNull\<rparr>"

subsection \<open>The Layer branch\<close>

text \<open>
  \<^verbatim>\<open>node_input["Node"]["node_id"] = new_ids[node_input["Node"]["node_id"]]\<close> for each
  input with a \<^verbatim>\<open>"Node"\<close> key; an id that \<^verbatim>\<open>new_ids\<close> does not have raises.
\<close>

fun renumber_inputs :: "(int \<times> int) list \<Rightarrow> node_input list \<Rightarrow> error + node_input list" where
  "renumber_inputs new_ids [] = Inr []"
| "renumber_inputs new_ids (Node n oi l # ins) =
     (case map_of new_ids n of
        None \<Rightarrow> Inl KeyError
      | Some n' \<Rightarrow>
          (case renumber_inputs new_ids ins of
             Inl e \<Rightarrow> Inl e
           | Inr ins' \<Rightarrow> Inr (Node n' oi l # ins')))"
| "renumber_inputs new_ids (i # ins) =
     (case renumber_inputs new_ids ins of
        Inl e \<Rightarrow> Inl e
      | Inr ins' \<Rightarrow> Inr (i # ins'))"

text \<open>
  \<^verbatim>\<open>any(map(lambda x: network["nodes"][x]["name"] == "Cull", nodes))\<close>, read from the
  network as it is when the test runs.
\<close>

definition any_cull :: "int list \<Rightarrow> node_dict \<Rightarrow> bool" where
  "any_cull node_set net =
     list_ex (\<lambda>x. case map_of net x of Some n \<Rightarrow> name n = ''Cull'' | None \<Rightarrow> False) node_set"

text \<open>
  The body of \<^verbatim>\<open>if not any(...)\<close> (lines 57 to 68): the node is moved, its deep copy
  is stored under a fresh id, and the node itself becomes the \<^verbatim>\<open>Cull\<close> node that
  reads the copy and is moved back.
\<close>

definition insert_cull :: "int \<Rightarrow> int \<Rightarrow> int \<Rightarrow> node \<Rightarrow> gstate \<Rightarrow> node \<times> gstate" where
  "insert_cull shift_left indent y node s =
     (let node1 = node\<lparr>position := (fst (position node) - (shift_left + 8 + indent), y)\<rparr>;
          (shape, s1) = next_new_id s;
          s2 = s1\<lparr>new_nodes := AList.update shape node1 (new_nodes s1)\<rparr>;
          node2 = node1\<lparr>
            name := ''Cull'',
            inputs := [Node shape 0 False],
            manual_composition := footprint,
            has_primary_output := True,
            implementation := cull_implementation,
            position := (fst (position node1) + (shift_left + 8 + indent), snd (position node1))\<rparr>
      in (node2, s2))"

text \<open>
  One iteration of \<^verbatim>\<open>for old_id in nodes\<close> (lines 45 to 73). The node object is
  mutated in place, so the network the later iterations read holds the mutated node.
\<close>

definition update_node ::
  "int list \<Rightarrow> (int \<times> int) list \<Rightarrow> int \<Rightarrow> int \<Rightarrow> int \<Rightarrow> int \<Rightarrow> node_dict \<times> gstate
     \<Rightarrow> error + node_dict \<times> gstate" where
  "update_node node_set new_ids shift_left indent y old_id st =
     (case st of (net, s) \<Rightarrow>
       (case map_of net old_id of
          None \<Rightarrow> Inl KeyError
        | Some node \<Rightarrow>
           (case renumber_inputs new_ids (inputs node) of
              Inl e \<Rightarrow> Inl e
            | Inr ins \<Rightarrow>
               (let node1 = node\<lparr>inputs := ins\<rparr>;
                    node2 = (if name node1 = ''Transform''
                             then node1\<lparr>implementation := transform_implementation,
                                        manual_composition := footprint\<rparr>
                             else node1);
                    net2 = AList.update old_id node2 net;
                    (node3, s3) = (if name node2 = ''Shape'' \<and> \<not> any_cull node_set net2
                                   then insert_cull shift_left indent y node2 s
                                   else (node2, s));
                    node4 = node3\<lparr>position := (fst (position node3) - (shift_left + indent), y)\<rparr>
                in (case map_of new_ids old_id of
                      None \<Rightarrow> Inl KeyError
                    | Some nid \<Rightarrow>
                        Inr (AList.update old_id node4 net,
                             s3\<lparr>new_nodes := AList.update nid node4 (new_nodes s3)\<rparr>))))))"

fun update_nodes ::
  "int list \<Rightarrow> (int \<times> int) list \<Rightarrow> int \<Rightarrow> int \<Rightarrow> int \<Rightarrow> int list \<Rightarrow> node_dict \<times> gstate
     \<Rightarrow> error + node_dict \<times> gstate" where
  "update_nodes node_set new_ids shift_left indent y [] st = Inr st"
| "update_nodes node_set new_ids shift_left indent y (old_id # rest) st =
     (case update_node node_set new_ids shift_left indent y old_id st of
        Inl e \<Rightarrow> Inl e
      | Inr st' \<Rightarrow> update_nodes node_set new_ids shift_left indent y rest st')"

text \<open>
  \<^verbatim>\<open>nodes = set(filter(lambda old_id: network["nodes"][old_id]["name"] != "Output",
  set(network["nodes"])))\<close> (line 36), in its iteration order.
\<close>

definition not_output :: "node_dict \<Rightarrow> int \<Rightarrow> bool" where
  "not_output net old_id =
     (case map_of net old_id of Some n \<Rightarrow> name n \<noteq> ''Output'' | None \<Rightarrow> False)"

definition node_set :: "(int list \<Rightarrow> int list) \<Rightarrow> network \<Rightarrow> int list" where
  "node_set h network =
     set_iter h (filter (not_output (nodes network)) (map fst (nodes network)))"

text \<open>
  The body of \<^verbatim>\<open>if "Layer" in data\<close> (lines 34 to 73); it returns \<^verbatim>\<open>output\<close> and
  the new global state.
\<close>

definition update_network ::
  "(int list \<Rightarrow> int list) \<Rightarrow> network \<Rightarrow> int \<Rightarrow> int \<Rightarrow> gstate \<Rightarrow> error + int \<times> gstate" where
  "update_network h network indent y s =
     (let (new_ids, s1) = zip_new_id (node_set h network) s
      in (case outputs network of
            [] \<Rightarrow> Inl IndexError
          | out # _ \<Rightarrow>
             (case map_of (nodes network) out of
                None \<Rightarrow> Inl KeyError
              | Some output_node \<Rightarrow>
                 (let shift_left = fst (position output_node)
                  in (case inputs output_node of
                        [] \<Rightarrow> Inl IndexError
                      | Value _ _ # _ \<Rightarrow> Inl KeyError
                      | Network _ # _ \<Rightarrow> Inl KeyError
                      | Node n _ _ # _ \<Rightarrow>
                         (case map_of new_ids n of
                            None \<Rightarrow> Inl KeyError
                          | Some output \<Rightarrow>
                             (case update_nodes (node_set h network) new_ids shift_left indent y
                                     (node_set h network) (nodes network, s1) of
                                Inl e \<Rightarrow> Inl e
                              | Inr (net', s2) \<Rightarrow> Inr (output, s2))))))))"

subsection \<open>The traversal\<close>

text \<open>
  The end of \<^verbatim>\<open>update_layer\<close> (lines 77 to 339): the assertion, then the
  \<^verbatim>\<open>Layer\<close> node stored under \<^verbatim>\<open>layer_node_id\<close>.
\<close>

definition store_layer_node ::
  "int option \<Rightarrow> int option \<Rightarrow> int \<Rightarrow> int \<Rightarrow> int \<Rightarrow> gstate \<Rightarrow> error + gstate" where
  "store_layer_node output next_id indent y layer_node_id s =
     (if (case output of None \<Rightarrow> True | Some out \<Rightarrow> out \<in> set (map fst (new_nodes s)))
      then Inr (s\<lparr>new_nodes :=
                   AList.update layer_node_id (layer_node output next_id indent y) (new_nodes s)\<rparr>)
      else Inl AssertionError)"

text \<open>
  \<^verbatim>\<open>update_layer\<close>, with the loop over \<^verbatim>\<open>enumerate(reversed(layers))\<close> as
  \<open>update_folder_layers\<close>, whose argument \<open>index\<close> is the loop's counter. The two
  tests \<^verbatim>\<open>"Folder" in data\<close> and \<^verbatim>\<open>"Layer" in data\<close> are independent, and the
  second overwrites the \<^verbatim>\<open>output\<close> of the first.
\<close>

function update_layer ::
    "(int list \<Rightarrow> int list) \<Rightarrow> data \<Rightarrow> int \<Rightarrow> int \<Rightarrow> int option \<Rightarrow> gstate \<Rightarrow> error + gstate"
  and update_folder_layers ::
    "(int list \<Rightarrow> int list) \<Rightarrow> int list \<Rightarrow> int \<Rightarrow> nat \<Rightarrow> data list \<Rightarrow> gstate \<Rightarrow> error + gstate"
  where
  "update_layer h (Data folder layer) indent layer_node_id next_id s =
     (let (y, s1) = next_y_position s
      in (case (case folder of
                  None \<Rightarrow> Inr (None, s1)
                | Some layers \<Rightarrow>
                   (let (ids, s2) = new_layer_ids layers s1
                    in (case update_folder_layers h ids indent 0 (rev layers) s2 of
                          Inl e \<Rightarrow> Inl e
                        | Inr s3 \<Rightarrow>
                           (case ids of
                              [] \<Rightarrow> Inl IndexError
                            | i # _ \<Rightarrow> Inr (Some i, s3))))) of
            Inl e \<Rightarrow> Inl e
          | Inr (output1, s4) \<Rightarrow>
             (case (case layer of
                      None \<Rightarrow> Inr (output1, s4)
                    | Some network \<Rightarrow>
                       (case update_network h network indent y s4 of
                          Inl e \<Rightarrow> Inl e
                        | Inr (out, s5) \<Rightarrow> Inr (Some out, s5))) of
                Inl e \<Rightarrow> Inl e
              | Inr (output, s6) \<Rightarrow> store_layer_node output next_id indent y layer_node_id s6)))"
| "update_folder_layers h ids indent index [] s = Inr s"
| "update_folder_layers h ids indent index (layer # rest) s =
     (let next_index = (if index + 1 < length ids then Some (ids ! (index + 1)) else None)
      in (case (if index < length ids
                then update_layer h layer (indent + 5) (ids ! index) next_index s
                else Inl IndexError) of
            Inl e \<Rightarrow> Inl e
          | Inr s' \<Rightarrow> update_folder_layers h ids indent (index + 1) rest s'))"
  by pat_completeness auto
termination
  by (relation "measure (\<lambda>x. case x of
         Inl (h, d, indent, lid, nxt, s) \<Rightarrow> 2 * size d
       | Inr (h, ids, indent, index, ls, s) \<Rightarrow> 2 * size_list size ls + 1)")
     (auto simp: size_list_conv_sum_list rev_map[symmetric])

subsection \<open>The document assembler\<close>

text \<open>
  \<^verbatim>\<open>migrate\<close>. It takes the \<^verbatim>\<open>data\<close> of the root of the legacy document read
  from the file and the global state the module is in when it is called, and returns
  the document it writes together with the global state it leaves. Of the document
  only \<^verbatim>\<open>document_network\<close> depends on the input; every other field of the
  envelope is a literal of the source and is left out.
\<close>

record document =
  document_network_outputs :: "(int \<times> int) list"
  document_network_nodes :: node_dict

definition migrate ::
  "(int list \<Rightarrow> int list) \<Rightarrow> data \<Rightarrow> gstate \<Rightarrow> error + document \<times> gstate" where
  "migrate h root_data s0 =
     (let s = s0\<lparr>new_id := gen_id, y_position := gen_y, new_nodes := []\<rparr>;
          (layer_node_id, s1) = next_new_id s
      in (case update_layer h root_data 0 layer_node_id None s1 of
            Inl e \<Rightarrow> Inl e
          | Inr s2 \<Rightarrow>
             (let s3 = s2\<lparr>new_nodes := AList.update 0 root_output_node (new_nodes s2)\<rparr>
              in Inr (\<lparr>document_network_outputs = [(0, 0)],
                       document_network_nodes = new_nodes s3\<rparr>, s3))))"

section \<open>Closed forms used in the statements\<close>

text \<open>
  The definitions of this section are not code of the repository: they name what the
  loop of the Layer branch leaves for one node, so that the theorems can say it.
\<close>

definition fix_transform :: "node \<Rightarrow> node" where
  "fix_transform n = (if name n = ''Transform''
     then n\<lparr>implementation := transform_implementation, manual_composition := footprint\<rparr> else n)"

definition plain_result :: "node_input list \<Rightarrow> int \<Rightarrow> int \<Rightarrow> int \<Rightarrow> node \<Rightarrow> node" where
  "plain_result ins shift_left indent y n =
     (fix_transform (n\<lparr>inputs := ins\<rparr>))\<lparr>position := (fst (position n) - (shift_left + indent), y)\<rparr>"

definition dup_result :: "node_input list \<Rightarrow> int \<Rightarrow> int \<Rightarrow> int \<Rightarrow> node \<Rightarrow> node" where
  "dup_result ins shift_left indent y n =
     n\<lparr>inputs := ins, position := (fst (position n) - (shift_left + 8 + indent), y)\<rparr>"

definition cull_result :: "int \<Rightarrow> int \<Rightarrow> int \<Rightarrow> int \<Rightarrow> node \<Rightarrow> node" where
  "cull_result shape shift_left indent y n =
     n\<lparr>name := ''Cull'', inputs := [Node shape 0 False], manual_composition := footprint,
       has_primary_output := True, implementation := cull_implementation,
       position := (fst (position n) - (shift_left + indent), y)\<rparr>"

definition emitted :: "node_dict \<Rightarrow> (int \<times> int) list \<Rightarrow> int \<Rightarrow> int \<Rightarrow> int \<Rightarrow> int \<Rightarrow> int \<Rightarrow> node_dict \<Rightarrow> node_dict \<Rightarrow> int \<Rightarrow> bool" where
  "emitted net new_ids sl indent y lo hi nn' net' k \<longleftrightarrow>
     (\<exists>n ins nid. map_of net k = Some n \<and> renumber_inputs new_ids (inputs n) = Inr ins \<and>
        map_of new_ids k = Some nid \<and>
        (map_of nn' nid = Some (plain_result ins sl indent y n) \<and>
         map_of net' k = Some (plain_result ins sl indent y n) \<or>
         name n = ''Shape'' \<and>
         (\<exists>shape. lo \<le> shape \<and> shape < hi \<and>
            map_of nn' nid = Some (cull_result shape sl indent y n) \<and>
            map_of net' k = Some (cull_result shape sl indent y n) \<and>
            map_of nn' shape = Some (dup_result ins sl indent y n))))"

definition new_ids_of :: "int list \<Rightarrow> int \<Rightarrow> (int \<times> int) list" where
  "new_ids_of ns c = zip ns (map (\<lambda>i. c + int i) [0..<length ns])"

definition name_of :: "node_dict \<Rightarrow> int \<Rightarrow> string option" where
  "name_of net k = map_option name (map_of net k)"

definition node_refs :: "node \<Rightarrow> int set" where
  "node_refs m = {r. \<exists>oi l. Node r oi l \<in> set (inputs m)}"

text \<open>
  The two branches of \<^verbatim>\<open>update_layer\<close> as functions of their own: \<open>folder_step\<close> is
  what the body of \<^verbatim>\<open>if "Folder" in data\<close> returns for \<^verbatim>\<open>output\<close> and the state,
  \<open>layer_step\<close> what the body of \<^verbatim>\<open>if "Layer" in data\<close> returns.
\<close>

definition folder_step ::
  "(int list \<Rightarrow> int list) \<Rightarrow> data list option \<Rightarrow> int \<Rightarrow> gstate \<Rightarrow> error + int option \<times> gstate" where
  "folder_step h folder indent s1 =
     (case folder of
        None \<Rightarrow> Inr (None, s1)
      | Some layers \<Rightarrow>
         (let (ids, s2) = new_layer_ids layers s1
          in (case update_folder_layers h ids indent 0 (rev layers) s2 of
                Inl e \<Rightarrow> Inl e
              | Inr s3 \<Rightarrow>
                 (case ids of
                    [] \<Rightarrow> Inl IndexError
                  | i # _ \<Rightarrow> Inr (Some i, s3)))))"

definition layer_step ::
  "(int list \<Rightarrow> int list) \<Rightarrow> network option \<Rightarrow> int \<Rightarrow> int \<Rightarrow> int option \<Rightarrow> gstate
     \<Rightarrow> error + int option \<times> gstate" where
  "layer_step h layer indent y output1 s4 =
     (case layer of
        None \<Rightarrow> Inr (output1, s4)
      | Some network \<Rightarrow>
         (case update_network h network indent y s4 of
            Inl e \<Rightarrow> Inl e
          | Inr (out, s5) \<Rightarrow> Inr (Some out, s5)))"

definition layer_frame :: "int \<Rightarrow> int option \<Rightarrow> int \<Rightarrow> gstate \<Rightarrow> gstate \<Rightarrow> bool" where
  "layer_frame lid nxt indent s s' \<longleftrightarrow>
     new_id s \<le> new_id s' \<and> y_position s < y_position s' \<and>
     fst ` set (new_nodes s) \<subseteq> fst ` set (new_nodes s') \<and>
     (\<forall>j. j \<noteq> lid \<and> (j < new_id s \<or> new_id s' \<le> j) \<longrightarrow>
          map_of (new_nodes s') j = map_of (new_nodes s) j) \<and>
     (\<exists>outp. map_of (new_nodes s') lid = Some (layer_node outp nxt indent (y_position s)))"

definition frame_holds :: "(int list \<Rightarrow> int list) \<Rightarrow> data \<Rightarrow> bool" where
  "frame_holds h d \<longleftrightarrow>
     (\<forall>ind lid nxt t t'. update_layer h d ind lid nxt t = Inr t' \<longrightarrow> layer_frame lid nxt ind t t')"

definition folder_frame :: "int list \<Rightarrow> nat \<Rightarrow> nat \<Rightarrow> gstate \<Rightarrow> gstate \<Rightarrow> bool" where
  "folder_frame ids index n s s' \<longleftrightarrow>
     new_id s \<le> new_id s' \<and> y_position s \<le> y_position s' \<and>
     (0 < n \<longrightarrow> index + n \<le> length ids) \<and>
     fst ` set (new_nodes s) \<subseteq> fst ` set (new_nodes s') \<and>
     (\<forall>i. index \<le> i \<and> i < index + n \<longrightarrow> ids ! i \<in> fst ` set (new_nodes s')) \<and>
     (\<forall>j. j \<notin> set (drop index ids) \<and> (j < new_id s \<or> new_id s' \<le> j) \<longrightarrow>
          map_of (new_nodes s') j = map_of (new_nodes s) j)"

definition no_assert :: "(int list \<Rightarrow> int list) \<Rightarrow> data \<Rightarrow> bool" where
  "no_assert h d \<longleftrightarrow>
     (\<forall>ind lid nxt t. update_layer h d ind lid nxt t \<noteq> Inl AssertionError)"

definition refs_within :: "int set \<Rightarrow> node_dict \<Rightarrow> bool" where
  "refs_within K nn \<longleftrightarrow> (\<forall>j m. map_of nn j = Some m \<longrightarrow> node_refs m \<subseteq> K)"

definition refs_hold :: "(int list \<Rightarrow> int list) \<Rightarrow> data \<Rightarrow> bool" where
  "refs_hold h d \<longleftrightarrow>
     (\<forall>ind lid nxt s s' P. update_layer h d ind lid nxt s = Inr s' \<longrightarrow>
        refs_within (fst ` set (new_nodes s) \<union> P) (new_nodes s) \<longrightarrow>
        (\<forall>x. nxt = Some x \<longrightarrow> x \<in> fst ` set (new_nodes s) \<union> P) \<longrightarrow>
        refs_within (fst ` set (new_nodes s') \<union> P) (new_nodes s'))"

text \<open>
  Example inputs, on which the theorems below are instantiated: a legacy network
  \<open>Output \<leftarrow> Fill \<leftarrow> Transform \<leftarrow> Shape\<close> whose Output node sits at X = 200, the global
  state in which its Layer branch is run, and the state the run leaves.
\<close>

definition example_node :: "string \<Rightarrow> node_input list \<Rightarrow> int \<Rightarrow> int \<Rightarrow> node" where
  "example_node nm ins x y =
     \<lparr>name = nm, inputs = ins, manual_composition = JNull, has_primary_output = True,
      implementation = JObj [(''Unresolved'', JObj [(''name'', JStr nm)])],
      position = (x, y), skip_deduplication = True, world_state_hash = 7, path = JList [JInt 1]\<rparr>"

definition network_a :: network where
  "network_a =
     \<lparr>nodes = [(0, example_node ''Output'' [Node 3 0 False] 200 0),
               (1, example_node ''Shape'' [Value (JStr ''path'') False] 50 1),
               (2, example_node ''Transform'' [Node 1 0 False, Value (JInt 0) False] 75 2),
               (3, example_node ''Fill'' [Node 2 0 False] 100 3)],
      outputs = [0]\<rparr>"

definition state_a :: gstate where
  "state_a = \<lparr>new_id = 44, y_position = 13, new_nodes = []\<rparr>"

definition final_a :: gstate where
  "final_a =
     \<lparr>new_id = 48, y_position = 13,
      new_nodes = [
        (47, (example_node ''Shape'' [Value (JStr ''path'') False] (- 158) 10)),
        (44, (example_node ''Shape'' [Value (JStr ''path'') False] (- 150) 10)
               \<lparr>name := ''Cull'', inputs := [Node 47 0 False], manual_composition := footprint,
                implementation := cull_implementation\<rparr>),
        (45, (example_node ''Transform'' [Node 44 0 False, Value (JInt 0) False] (- 125) 10)
               \<lparr>manual_composition := footprint, implementation := transform_implementation\<rparr>),
        (46, example_node ''Fill'' [Node 45 0 False] (- 100) 10)]\<rparr>"

definition network_b :: network where
  "network_b =
     \<lparr>nodes = [(0, example_node ''Output'' [Node 3 0 False] 200 0),
               (1, example_node ''Shape'' [] 50 1),
               (2, example_node ''Shape'' [] 60 2),
               (3, example_node ''Merge'' [Node 1 0 False, Node 2 0 False] 100 3)],
      outputs = [0]\<rparr>"

definition final_b :: gstate where
  "final_b =
     \<lparr>new_id = 48, y_position = 13,
      new_nodes = [
        (47, example_node ''Shape'' [] (- 158) 10),
        (44, (example_node ''Shape'' [] (- 150) 10)
               \<lparr>name := ''Cull'', inputs := [Node 47 0 False], manual_composition := footprint,
                implementation := cull_implementation\<rparr>),
        (45, example_node ''Shape'' [] (- 140) 10),
        (46, example_node ''Merge'' [Node 44 0 False, Node 45 0 False] (- 100) 10)]\<rparr>"

definition network_c :: network where
  "network_c =
     \<lparr>nodes = [(0, example_node ''Output'' [Node 2 0 False] 200 0),
               (1, example_node ''Shape'' [Node 3 0 False] 50 1),
               (2, example_node ''Cull'' [Node 1 0 False] 100 2),
               (3, example_node ''Path'' [] 0 3)],
      outputs = [0]\<rparr>"

definition final_c :: gstate where
  "final_c =
     \<lparr>new_id = 47, y_position = 13,
      new_nodes = [
        (44, example_node ''Shape'' [Node 46 0 False] (- 150) 10),
        (45, example_node ''Cull'' [Node 44 0 False] (- 100) 10),
        (46, example_node ''Path'' [] (- 200) 10)]\<rparr>"

definition root_b :: data where
  "root_b = Data (Some [Data None (Some network_a), Data None None]) None"

definition nodes_b_out :: node_dict where
  "nodes_b_out =
     [(43, layer_node None (Some 44) 5 10),
      (49, example_node ''Shape'' [Value (JStr ''path'') False] (- 163) 13),
      (46, (example_node ''Shape'' [Value (JStr ''path'') False] (- 155) 13)
             \<lparr>name := ''Cull'', inputs := [Node 49 0 False], manual_composition := footprint,
              implementation := cull_implementation\<rparr>),
      (47, (example_node ''Transform'' [Node 46 0 False, Value (JInt 0) False] (- 130) 13)
             \<lparr>manual_composition := footprint, implementation := transform_implementation\<rparr>),
      (48, example_node ''Fill'' [Node 47 0 False] (- 105) 13),
      (44, layer_node (Some 48) None 5 13),
      (42, layer_node (Some 43) None 0 7),
      (0, root_output_node)]"





definition next_index :: "int list \<Rightarrow> nat \<Rightarrow> int option" where
  "next_index ids index = (if index + 1 < length ids then Some (ids ! (index + 1)) else None)"

section \<open>The loop over the nodes of a network\<close>

lemma next_new_id_simps [simp]:
  "fst (next_new_id s) = new_id s" "snd (next_new_id s) = s\<lparr>new_id := new_id s + 1\<rparr>"
  by (simp_all add: next_new_id_def)

lemma new_layer_ids_eq:
  "new_layer_ids ls s =
     (map (\<lambda>i. new_id s + int i) [0..<length ls], s\<lparr>new_id := new_id s + int (length ls) + 1\<rparr>)"
proof (induction ls arbitrary: s)
  case Nil
  show ?case by (simp add: next_new_id_def)
next
  case (Cons l ls)
  have "map (\<lambda>i. new_id s + int i) [0..<Suc (length ls)] =
        new_id s # map (\<lambda>i. new_id s + 1 + int i) [0..<length ls]"
    by (simp add: upt_conv_Cons map_Suc_upt[symmetric] del: upt_Suc)
  then show ?case using Cons by (simp add: next_new_id_def)
qed

lemma zip_new_id_eq:
  "zip_new_id ks s =
     (zip ks (map (\<lambda>i. new_id s + int i) [0..<length ks]), s\<lparr>new_id := new_id s + int (length ks)\<rparr>)"
proof (induction ks arbitrary: s)
  case Nil
  show ?case by simp
next
  case (Cons k ks)
  have "map (\<lambda>i. new_id s + int i) [0..<Suc (length ks)] =
        new_id s # map (\<lambda>i. new_id s + 1 + int i) [0..<length ks]"
    by (simp add: upt_conv_Cons map_Suc_upt[symmetric] del: upt_Suc)
  then show ?case using Cons by (simp add: next_new_id_def)
qed

lemma set_iter_distinct [simp]: "distinct (set_iter h ks)"
  by (simp add: set_iter_def)

lemma set_iter_set [simp]: "set (set_iter h ks) = set ks"
  by (simp add: set_iter_def)

lemma any_cull_update_same_name:
  assumes "map_of net k = Some n" "name n' = name n"
  shows "any_cull ns (AList.update k n' net) = any_cull ns net"
proof -
  have "(case map_of (AList.update k n' net) x of Some n \<Rightarrow> name n = ''Cull'' | None \<Rightarrow> False) =
        (case map_of net x of Some n \<Rightarrow> name n = ''Cull'' | None \<Rightarrow> False)" for x
    using assms by (simp add: update_conv')
  then show ?thesis by (simp add: any_cull_def)
qed

lemma any_cull_update_cull:
  assumes "k \<in> set ns" "name n' = ''Cull''"
  shows "any_cull ns (AList.update k n' net)"
  unfolding any_cull_def list_ex_iff
  by (rule bexI[OF _ assms(1)]) (simp add: update_conv' assms(2))

lemma update_node_Inr:
  assumes "update_node ns new_ids sl indent y k (net, s) = Inr (net', s')"
  obtains n ins nid where
    "map_of net k = Some n" "renumber_inputs new_ids (inputs n) = Inr ins"
    "map_of new_ids k = Some nid"
    "name n = ''Shape'' \<and> \<not> any_cull ns net \<Longrightarrow>
       net' = AList.update k (cull_result (new_id s) sl indent y n) net \<and>
       s' = s\<lparr>new_id := new_id s + 1,
              new_nodes := AList.update nid (cull_result (new_id s) sl indent y n)
                 (AList.update (new_id s) (dup_result ins sl indent y n) (new_nodes s))\<rparr>"
    "\<not> (name n = ''Shape'' \<and> \<not> any_cull ns net) \<Longrightarrow>
       net' = AList.update k (plain_result ins sl indent y n) net \<and>
       s' = s\<lparr>new_nodes := AList.update nid (plain_result ins sl indent y n) (new_nodes s)\<rparr>"
proof -
  from assms obtain n where n: "map_of net k = Some n"
    by (auto simp: update_node_def split: option.splits)
  from assms n obtain ins where ins: "renumber_inputs new_ids (inputs n) = Inr ins"
    by (auto simp: update_node_def split: option.splits sum.splits)
  from assms n ins obtain nid where nid: "map_of new_ids k = Some nid"
    by (auto simp: update_node_def Let_def split: option.splits sum.splits prod.splits)
  have ac: "name n = ''Shape'' \<Longrightarrow> any_cull ns (AList.update k (n\<lparr>inputs := ins\<rparr>) net) = any_cull ns net"
    using any_cull_update_same_name[OF n, of "n\<lparr>inputs := ins\<rparr>"] by simp
  show ?thesis
  proof (rule that[OF n ins nid])
    assume c: "name n = ''Shape'' \<and> \<not> any_cull ns net"
    with assms n ins nid ac
    show "net' = AList.update k (cull_result (new_id s) sl indent y n) net \<and>
       s' = s\<lparr>new_id := new_id s + 1,
              new_nodes := AList.update nid (cull_result (new_id s) sl indent y n)
                 (AList.update (new_id s) (dup_result ins sl indent y n) (new_nodes s))\<rparr>"
      by (simp add: update_node_def Let_def insert_cull_def next_new_id_def
            cull_result_def dup_result_def)
  next
    assume c: "\<not> (name n = ''Shape'' \<and> \<not> any_cull ns net)"
    show "net' = AList.update k (plain_result ins sl indent y n) net \<and>
       s' = s\<lparr>new_nodes := AList.update nid (plain_result ins sl indent y n) (new_nodes s)\<rparr>"
    proof (cases "name n = ''Shape''")
      case True
      with c ac have "any_cull ns (AList.update k (n\<lparr>inputs := ins\<rparr>) net)" by simp
      with assms n ins nid True show ?thesis
        by (simp add: update_node_def Let_def plain_result_def fix_transform_def)
    next
      case False
      with assms n ins nid show ?thesis
        by (auto simp: update_node_def Let_def plain_result_def fix_transform_def)
    qed
  qed
qed

lemma update_node_frame:
  assumes "update_node ns new_ids sl indent y k (net, s) = Inr (net', s')"
  shows "new_id s \<le> new_id s'" "new_id s' \<le> new_id s + 1" "y_position s' = y_position s"
    "\<And>j. j \<noteq> k \<Longrightarrow> map_of net' j = map_of net j"
    "\<And>j. map_of new_ids k \<noteq> Some j \<Longrightarrow> j < new_id s \<or> new_id s' \<le> j \<Longrightarrow>
        map_of (new_nodes s') j = map_of (new_nodes s) j"
proof -
  from assms obtain n ins nid where
    nid: "map_of new_ids k = Some nid" and
    c1: "name n = ''Shape'' \<and> \<not> any_cull ns net \<Longrightarrow>
       net' = AList.update k (cull_result (new_id s) sl indent y n) net \<and>
       s' = s\<lparr>new_id := new_id s + 1,
              new_nodes := AList.update nid (cull_result (new_id s) sl indent y n)
                 (AList.update (new_id s) (dup_result ins sl indent y n) (new_nodes s))\<rparr>" and
    c2: "\<not> (name n = ''Shape'' \<and> \<not> any_cull ns net) \<Longrightarrow>
       net' = AList.update k (plain_result ins sl indent y n) net \<and>
       s' = s\<lparr>new_nodes := AList.update nid (plain_result ins sl indent y n) (new_nodes s)\<rparr>"
    by (rule update_node_Inr) blast
  show "new_id s \<le> new_id s'" using c1 c2 by (cases "name n = ''Shape'' \<and> \<not> any_cull ns net") auto
  show "new_id s' \<le> new_id s + 1" using c1 c2 by (cases "name n = ''Shape'' \<and> \<not> any_cull ns net") auto
  show "y_position s' = y_position s" using c1 c2 by (cases "name n = ''Shape'' \<and> \<not> any_cull ns net") auto
  show "map_of net' j = map_of net j" if "j \<noteq> k" for j
    using c1 c2 that by (cases "name n = ''Shape'' \<and> \<not> any_cull ns net") (auto simp: update_conv')
  show "map_of (new_nodes s') j = map_of (new_nodes s) j"
    if "map_of new_ids k \<noteq> Some j" "j < new_id s \<or> new_id s' \<le> j" for j
    using c1 c2 that nid by (cases "name n = ''Shape'' \<and> \<not> any_cull ns net") (auto simp: update_conv')
qed

lemma update_nodes_frame:
  assumes "update_nodes ns new_ids sl indent y todo (net, s) = Inr (net', s')"
  shows "new_id s \<le> new_id s' \<and> y_position s' = y_position s \<and>
    (\<forall>j. j \<notin> set todo \<longrightarrow> map_of net' j = map_of net j) \<and>
    (\<forall>j. (\<forall>t\<in>set todo. map_of new_ids t \<noteq> Some j) \<and> (j < new_id s \<or> new_id s' \<le> j) \<longrightarrow>
         map_of (new_nodes s') j = map_of (new_nodes s) j)"
  using assms
proof (induction todo arbitrary: net s)
  case Nil
  then show ?case by simp
next
  case (Cons k rest)
  from Cons.prems obtain net1 s1 where
    h: "update_node ns new_ids sl indent y k (net, s) = Inr (net1, s1)" and
    r: "update_nodes ns new_ids sl indent y rest (net1, s1) = Inr (net', s')"
    by (auto split: sum.splits)
  note f = update_node_frame[OF h]
  note ih = Cons.IH[OF r]
  have "new_id s \<le> new_id s'" using f(1) ih by linarith
  moreover have "y_position s' = y_position s" using f(3) ih by simp
  moreover have "map_of net' j = map_of net j" if "j \<notin> set (k # rest)" for j
    using that f(4)[of j] ih by simp
  moreover have "map_of (new_nodes s') j = map_of (new_nodes s) j"
    if "\<forall>t\<in>set (k # rest). map_of new_ids t \<noteq> Some j" "j < new_id s \<or> new_id s' \<le> j" for j
  proof -
    have a: "j < new_id s1 \<or> new_id s' \<le> j" using that(2) f(1) by linarith
    have b: "j < new_id s \<or> new_id s1 \<le> j" using that(2) ih by linarith
    have "map_of (new_nodes s') j = map_of (new_nodes s1) j" using ih that(1) a by simp
    also have "\<dots> = map_of (new_nodes s) j" using f(5)[of j] that(1) b by simp
    finally show ?thesis .
  qed
  ultimately show ?case by blast
qed

lemma emitted_weaken:
  assumes "emitted net1 new_ids sl indent y lo1 hi nn' net' k"
    and "map_of net1 k = map_of net k" and "lo \<le> lo1"
  shows "emitted net new_ids sl indent y lo hi nn' net' k"
proof -
  from assms(1) obtain n ins nid where
    a: "map_of net1 k = Some n" "renumber_inputs new_ids (inputs n) = Inr ins"
       "map_of new_ids k = Some nid" and
    b: "map_of nn' nid = Some (plain_result ins sl indent y n) \<and>
         map_of net' k = Some (plain_result ins sl indent y n) \<or>
         name n = ''Shape'' \<and>
         (\<exists>shape. lo1 \<le> shape \<and> shape < hi \<and>
            map_of nn' nid = Some (cull_result shape sl indent y n) \<and>
            map_of net' k = Some (cull_result shape sl indent y n) \<and>
            map_of nn' shape = Some (dup_result ins sl indent y n))"
    unfolding emitted_def by blast
  from b have "map_of nn' nid = Some (plain_result ins sl indent y n) \<and>
         map_of net' k = Some (plain_result ins sl indent y n) \<or>
         name n = ''Shape'' \<and>
         (\<exists>shape. lo \<le> shape \<and> shape < hi \<and>
            map_of nn' nid = Some (cull_result shape sl indent y n) \<and>
            map_of net' k = Some (cull_result shape sl indent y n) \<and>
            map_of nn' shape = Some (dup_result ins sl indent y n))"
    using assms(3) by (meson order_trans)
  with a assms(2) show ?thesis unfolding emitted_def by auto
qed

lemma update_nodes_emitted:
  assumes "update_nodes ns new_ids sl indent y todo (net, s) = Inr (net', s')"
    and "distinct todo" and "inj_on (map_of new_ids) (set todo)"
    and "\<forall>t\<in>set todo. \<forall>v. map_of new_ids t = Some v \<longrightarrow> v < new_id s"
    and "k \<in> set todo"
  shows "emitted net new_ids sl indent y (new_id s) (new_id s') (new_nodes s') net' k"
  using assms
proof (induction todo arbitrary: net s)
  case Nil
  then show ?case by simp
next
  case (Cons t rest)
  from Cons.prems(1) obtain net1 s1 where
    h: "update_node ns new_ids sl indent y t (net, s) = Inr (net1, s1)" and
    r: "update_nodes ns new_ids sl indent y rest (net1, s1) = Inr (net', s')"
    by (auto split: sum.splits)
  note f = update_node_frame[OF h]
  note fr = update_nodes_frame[OF r]
  have below1: "\<forall>t\<in>set rest. \<forall>v. map_of new_ids t = Some v \<longrightarrow> v < new_id s1"
    using Cons.prems(4) f(1) by fastforce
  have inj1: "inj_on (map_of new_ids) (set rest)"
    using Cons.prems(3) by (auto simp: inj_on_def)
  show ?case
  proof (cases "k = t")
    case True
    from h obtain n ins nid where
      n: "map_of net t = Some n" and ins: "renumber_inputs new_ids (inputs n) = Inr ins" and
      nid: "map_of new_ids t = Some nid" and
      c1: "name n = ''Shape'' \<and> \<not> any_cull ns net \<Longrightarrow>
         net1 = AList.update t (cull_result (new_id s) sl indent y n) net \<and>
         s1 = s\<lparr>new_id := new_id s + 1,
              new_nodes := AList.update nid (cull_result (new_id s) sl indent y n)
                 (AList.update (new_id s) (dup_result ins sl indent y n) (new_nodes s))\<rparr>" and
      c2: "\<not> (name n = ''Shape'' \<and> \<not> any_cull ns net) \<Longrightarrow>
         net1 = AList.update t (plain_result ins sl indent y n) net \<and>
         s1 = s\<lparr>new_nodes := AList.update nid (plain_result ins sl indent y n) (new_nodes s)\<rparr>"
      by (rule update_node_Inr) blast
    have nid_lt: "nid < new_id s" using Cons.prems(4) nid by simp
    have nid_rest: "\<forall>u\<in>set rest. map_of new_ids u \<noteq> Some nid"
    proof
      fix u assume u: "u \<in> set rest"
      with Cons.prems(2) have "u \<noteq> t" by auto
      with Cons.prems(3) u have "map_of new_ids u \<noteq> map_of new_ids t"
        by (auto simp: inj_on_def)
      then show "map_of new_ids u \<noteq> Some nid" using nid by simp
    qed
    have keep_nid: "map_of (new_nodes s') nid = map_of (new_nodes s1) nid"
      using fr nid_rest nid_lt f(1) by force
    have keep_net: "map_of net' t = map_of net1 t"
      using fr Cons.prems(2) by simp
    show ?thesis
    proof (cases "name n = ''Shape'' \<and> \<not> any_cull ns net")
      case c: True
      note e = c1[OF c]
      have s1id: "new_id s1 = new_id s + 1" using e by simp
      have sh_rest: "\<forall>u\<in>set rest. map_of new_ids u \<noteq> Some (new_id s)"
        using Cons.prems(4) by fastforce
      have keep_sh: "map_of (new_nodes s') (new_id s) = map_of (new_nodes s1) (new_id s)"
        using fr sh_rest s1id by force
      have "map_of (new_nodes s1) nid = Some (cull_result (new_id s) sl indent y n)"
        using e by (simp add: update_conv')
      moreover have "map_of (new_nodes s1) (new_id s) = Some (dup_result ins sl indent y n)"
        using e nid_lt by (simp add: update_conv')
      moreover have "map_of net1 t = Some (cull_result (new_id s) sl indent y n)"
        using e by (simp add: update_conv')
      moreover have "new_id s < new_id s'" using fr s1id by linarith
      ultimately show ?thesis
        unfolding emitted_def using True n ins nid c keep_nid keep_sh keep_net by auto
    next
      case c: False
      note e = c2[OF c]
      have "map_of (new_nodes s1) nid = Some (plain_result ins sl indent y n)"
        using e by (simp add: update_conv')
      moreover have "map_of net1 t = Some (plain_result ins sl indent y n)"
        using e by (simp add: update_conv')
      ultimately show ?thesis
        unfolding emitted_def using True n ins nid keep_nid keep_net by auto
    qed
  next
    case False
    with Cons.prems(5) have kr: "k \<in> set rest" by simp
    from Cons.prems(2) have dr: "distinct rest" by simp
    have ih: "emitted net1 new_ids sl indent y (new_id s1) (new_id s') (new_nodes s') net' k"
      by (rule Cons.IH[OF r dr inj1 below1 kr])
    have "map_of net1 k = map_of net k" using f(4) False by simp
    then show ?thesis using f(1) by (rule emitted_weaken[OF ih])
  qed
qed

lemma node_set_distinct [simp]: "distinct (node_set h network)"
  by (simp add: node_set_def)

lemma node_set_iff:
  "k \<in> set (node_set h network) \<longleftrightarrow>
     (\<exists>n. map_of (nodes network) k = Some n \<and> name n \<noteq> ''Output'')"
proof -
  have "map_of (nodes network) k = Some n \<Longrightarrow> k \<in> fst ` set (nodes network)" for n
    by (metis domI dom_map_of_conv_image_fst)
  then show ?thesis
    by (auto simp: node_set_def not_output_def split: option.splits)
qed

lemma new_ids_of_nth:
  "distinct ns \<Longrightarrow> i < length ns \<Longrightarrow> map_of (new_ids_of ns c) (ns ! i) = Some (c + int i)"
  unfolding new_ids_of_def
  using map_of_zip_nth[of ns "map (\<lambda>i. c + int i) [0..<length ns]" i] by simp

lemma new_ids_of_Some:
  assumes "distinct ns" "map_of (new_ids_of ns c) k = Some v"
  shows "\<exists>i<length ns. k = ns ! i \<and> v = c + int i"
proof -
  from assms(2) have "k \<in> set ns"
    unfolding new_ids_of_def by (auto dest!: map_of_SomeD set_zip_leftD)
  then obtain i where i: "i < length ns" "k = ns ! i" by (auto simp: in_set_conv_nth)
  with assms new_ids_of_nth[OF assms(1) i(1), of c] show ?thesis by auto
qed

lemma new_ids_of_in:
  "distinct ns \<Longrightarrow> k \<in> set ns \<Longrightarrow> \<exists>i<length ns. k = ns ! i \<and> map_of (new_ids_of ns c) k = Some (c + int i)"
  by (auto simp: in_set_conv_nth new_ids_of_nth)

lemma new_ids_of_inj:
  assumes "distinct ns"
  shows "inj_on (map_of (new_ids_of ns c)) (set ns)"
proof (rule inj_onI)
  fix a b assume a: "a \<in> set ns" and b: "b \<in> set ns"
    and e: "map_of (new_ids_of ns c) a = map_of (new_ids_of ns c) b"
  from new_ids_of_in[OF assms a, of c] obtain i where
    i: "i < length ns" "a = ns ! i" "map_of (new_ids_of ns c) a = Some (c + int i)" by blast
  from new_ids_of_in[OF assms b, of c] obtain j where
    j: "j < length ns" "b = ns ! j" "map_of (new_ids_of ns c) b = Some (c + int j)" by blast
  from e i(3) j(3) have "i = j" by simp
  with i j show "a = b" by simp
qed

lemma update_network_Inr:
  assumes "update_network h network indent y s = Inr (out, s')"
  obtains out_id rest output_node n oi l ins net' where
    "outputs network = out_id # rest"
    "map_of (nodes network) out_id = Some output_node"
    "inputs output_node = Node n oi l # ins"
    "map_of (new_ids_of (node_set h network) (new_id s)) n = Some out"
    "update_nodes (node_set h network) (new_ids_of (node_set h network) (new_id s))
       (fst (position output_node)) indent y (node_set h network)
       (nodes network, s\<lparr>new_id := new_id s + int (length (node_set h network))\<rparr>) = Inr (net', s')"
  using assms
  unfolding update_network_def zip_new_id_eq new_ids_of_def[symmetric]
  by (auto simp: Let_def split: list.splits option.splits node_input.splits sum.splits)

lemma any_cull_iff: "any_cull ns net \<longleftrightarrow> (\<exists>k\<in>set ns. name_of net k = Some ''Cull'')"
  by (auto simp: any_cull_def list_ex_iff name_of_def split: option.splits)

lemma plain_result_name [simp]: "name (plain_result ins sl indent y n) = name n"
  by (simp add: plain_result_def fix_transform_def)

lemma cull_result_name [simp]: "name (cull_result shape sl indent y n) = ''Cull''"
  by (simp add: cull_result_def)

lemma dup_result_name [simp]: "name (dup_result ins sl indent y n) = name n"
  by (simp add: dup_result_def)

lemma update_node_plain:
  assumes "update_node ns new_ids sl indent y k (net, s) = Inr (net', s')"
    and "any_cull ns net \<or> name_of net k \<noteq> Some ''Shape''"
  shows "new_id s' = new_id s" "name_of net' = name_of net"
proof -
  from assms(1) obtain n ins nid where
    n: "map_of net k = Some n" and
    c2: "\<not> (name n = ''Shape'' \<and> \<not> any_cull ns net) \<Longrightarrow>
       net' = AList.update k (plain_result ins sl indent y n) net \<and>
       s' = s\<lparr>new_nodes := AList.update nid (plain_result ins sl indent y n) (new_nodes s)\<rparr>"
    by (rule update_node_Inr) blast
  have "\<not> (name n = ''Shape'' \<and> \<not> any_cull ns net)"
    using assms(2) n by (auto simp: name_of_def)
  note e = c2[OF this]
  show "new_id s' = new_id s" using e by simp
  show "name_of net' = name_of net"
    using e n by (auto simp: name_of_def update_conv' fun_eq_iff)
qed

lemma update_node_cull:
  assumes "update_node ns new_ids sl indent y k (net, s) = Inr (net', s')"
    and "\<not> any_cull ns net" and "name_of net k = Some ''Shape''"
  shows "new_id s' = new_id s + 1" "name_of net' k = Some ''Cull''"
proof -
  from assms(1) obtain n ins nid where
    n: "map_of net k = Some n" and
    c1: "name n = ''Shape'' \<and> \<not> any_cull ns net \<Longrightarrow>
       net' = AList.update k (cull_result (new_id s) sl indent y n) net \<and>
       s' = s\<lparr>new_id := new_id s + 1,
              new_nodes := AList.update nid (cull_result (new_id s) sl indent y n)
                 (AList.update (new_id s) (dup_result ins sl indent y n) (new_nodes s))\<rparr>"
    by (rule update_node_Inr) blast
  have "name n = ''Shape'' \<and> \<not> any_cull ns net"
    using assms(2,3) n by (auto simp: name_of_def)
  note e = c1[OF this]
  show "new_id s' = new_id s + 1" using e by simp
  show "name_of net' k = Some ''Cull''" using e by (simp add: name_of_def update_conv')
qed

text \<open>Once a node named Cull is in the network, the rest of the pass inserts nothing.\<close>

lemma update_nodes_after_cull:
  assumes "update_nodes ns new_ids sl indent y todo (net, s) = Inr (net', s')"
    and "any_cull ns net"
  shows "new_id s' = new_id s \<and> name_of net' = name_of net"
  using assms
proof (induction todo arbitrary: net s)
  case Nil
  then show ?case by simp
next
  case (Cons t rest)
  from Cons.prems(1) obtain net1 s1 where
    h: "update_node ns new_ids sl indent y t (net, s) = Inr (net1, s1)" and
    r: "update_nodes ns new_ids sl indent y rest (net1, s1) = Inr (net', s')"
    by (auto split: sum.splits)
  have p: "new_id s1 = new_id s" "name_of net1 = name_of net"
    using update_node_plain[OF h] Cons.prems(2) by auto
  then have "any_cull ns net1" using Cons.prems(2) by (simp add: any_cull_iff)
  from Cons.IH[OF r this] p show ?case by simp
qed

text \<open>At most one node is renamed in a pass.\<close>

lemma update_nodes_one_cull:
  assumes "update_nodes ns new_ids sl indent y todo (net, s) = Inr (net', s')"
    and "set todo \<subseteq> set ns"
  shows "new_id s' \<le> new_id s + 1 \<and>
    (\<forall>a b. name_of net' a = Some ''Cull'' \<and> name_of net a \<noteq> Some ''Cull'' \<and>
           name_of net' b = Some ''Cull'' \<and> name_of net b \<noteq> Some ''Cull'' \<longrightarrow> a = b)"
  using assms
proof (induction todo arbitrary: net s)
  case Nil
  then show ?case by auto
next
  case (Cons t rest)
  from Cons.prems(1) obtain net1 s1 where
    h: "update_node ns new_ids sl indent y t (net, s) = Inr (net1, s1)" and
    r: "update_nodes ns new_ids sl indent y rest (net1, s1) = Inr (net', s')"
    by (auto split: sum.splits)
  from Cons.prems(2) have sub: "set rest \<subseteq> set ns" and t: "t \<in> set ns" by auto
  show ?case
  proof (cases "any_cull ns net \<or> name_of net t \<noteq> Some ''Shape''")
    case True
    have p: "new_id s1 = new_id s" "name_of net1 = name_of net"
      using update_node_plain[OF h True] by auto
    from Cons.IH[OF r sub] p show ?thesis by simp
  next
    case False
    then have c: "\<not> any_cull ns net" "name_of net t = Some ''Shape''" by auto
    have q: "new_id s1 = new_id s + 1" "name_of net1 t = Some ''Cull''"
      using update_node_cull[OF h c] by auto
    have other: "name_of net1 j = name_of net j" if "j \<noteq> t" for j
      using update_node_frame(4)[OF h that] by (simp add: name_of_def)
    have "any_cull ns net1" using q(2) t by (auto simp: any_cull_iff)
    from update_nodes_after_cull[OF r this]
    have z: "new_id s' = new_id s1" "name_of net' = name_of net1" by auto
    have "a = t" if "name_of net' a = Some ''Cull''" "name_of net a \<noteq> Some ''Cull''" for a
      using that z(2) other[of a] by auto
    then show ?thesis using z(1) q(1) by auto
  qed
qed

lemma update_nodes_some_cull:
  assumes "update_nodes ns new_ids sl indent y todo (net, s) = Inr (net', s')"
    and "\<not> any_cull ns net" and "set todo \<subseteq> set ns"
    and "\<exists>k\<in>set todo. name_of net k = Some ''Shape''"
  shows "new_id s' = new_id s + 1 \<and>
    (\<exists>k\<in>set todo. name_of net k = Some ''Shape'' \<and> name_of net' k = Some ''Cull'')"
  using assms
proof (induction todo arbitrary: net s)
  case Nil
  then show ?case by simp
next
  case (Cons t rest)
  from Cons.prems(1) obtain net1 s1 where
    h: "update_node ns new_ids sl indent y t (net, s) = Inr (net1, s1)" and
    r: "update_nodes ns new_ids sl indent y rest (net1, s1) = Inr (net', s')"
    by (auto split: sum.splits)
  from Cons.prems(3) have sub: "set rest \<subseteq> set ns" and t: "t \<in> set ns" by auto
  show ?case
  proof (cases "name_of net t = Some ''Shape''")
    case True
    have q: "new_id s1 = new_id s + 1" "name_of net1 t = Some ''Cull''"
      using update_node_cull[OF h Cons.prems(2) True] by auto
    have "any_cull ns net1" using q(2) t by (auto simp: any_cull_iff)
    from update_nodes_after_cull[OF r this]
    have z: "new_id s' = new_id s1" "name_of net' = name_of net1" by auto
    show ?thesis using True q z by auto
  next
    case False
    have p: "new_id s1 = new_id s" "name_of net1 = name_of net"
      using update_node_plain[OF h] False by auto
    have nc: "\<not> any_cull ns net1" using Cons.prems(2) p(2) by (simp add: any_cull_iff)
    have ex: "\<exists>k\<in>set rest. name_of net1 k = Some ''Shape''"
      using Cons.prems(4) False p(2) by auto
    from Cons.IH[OF r nc sub ex] p show ?thesis by auto
  qed
qed

lemma emitted_cases:
  assumes "emitted net new_ids sl indent y lo hi nn' net' k"
  obtains n ins nid where "map_of net k = Some n" "renumber_inputs new_ids (inputs n) = Inr ins"
    "map_of new_ids k = Some nid"
    "map_of nn' nid = Some (plain_result ins sl indent y n)"
    "map_of net' k = Some (plain_result ins sl indent y n)"
  | n ins nid shape where "map_of net k = Some n" "renumber_inputs new_ids (inputs n) = Inr ins"
    "map_of new_ids k = Some nid" "name n = ''Shape''" "lo \<le> shape" "shape < hi"
    "map_of nn' nid = Some (cull_result shape sl indent y n)"
    "map_of net' k = Some (cull_result shape sl indent y n)"
    "map_of nn' shape = Some (dup_result ins sl indent y n)"
  using assms unfolding emitted_def by blast

text \<open>What the Layer branch leaves in \<open>new_nodes\<close> for each node of the network.\<close>

lemma update_network_emitted:
  assumes run: "update_network h network indent y s = Inr (out, s')"
    and out: "outputs network = out_id # rest" "map_of (nodes network) out_id = Some output_node"
    and k: "k \<in> set (node_set h network)"
  shows "\<exists>net'. emitted (nodes network) (new_ids_of (node_set h network) (new_id s))
           (fst (position output_node)) indent y
           (new_id s + int (length (node_set h network))) (new_id s') (new_nodes s') net' k"
proof -
  let ?ns = "node_set h network"
  let ?ids = "new_ids_of ?ns (new_id s)"
  let ?s1 = "s\<lparr>new_id := new_id s + int (length ?ns)\<rparr>"
  from run out obtain net' where
    u: "update_nodes ?ns ?ids (fst (position output_node)) indent y ?ns (nodes network, ?s1) = Inr (net', s')"
    by (auto elim!: update_network_Inr)
  have below: "\<forall>t\<in>set ?ns. \<forall>v. map_of ?ids t = Some v \<longrightarrow> v < new_id ?s1"
    using new_ids_of_Some[of ?ns "new_id s"] by fastforce
  from update_nodes_emitted[OF u node_set_distinct new_ids_of_inj[OF node_set_distinct] below k]
  show ?thesis by auto
qed

lemma renumber_inputs_refs:
  assumes "renumber_inputs new_ids ins = Inr ins'" "Node r oi l \<in> set ins'"
  shows "\<exists>k. map_of new_ids k = Some r"
  using assms
proof (induction ins arbitrary: ins')
  case Nil
  then show ?case by simp
next
  case (Cons a ins)
  then show ?case
    by (cases a) (auto split: option.splits sum.splits)
qed

lemma node_refs_plain:
  "node_refs (plain_result ins sl indent y n) = {r. \<exists>oi l. Node r oi l \<in> set ins}"
  by (simp add: node_refs_def plain_result_def fix_transform_def)

lemma node_refs_dup:
  "node_refs (dup_result ins sl indent y n) = {r. \<exists>oi l. Node r oi l \<in> set ins}"
  by (simp add: node_refs_def dup_result_def)

lemma node_refs_cull: "node_refs (cull_result shape sl indent y n) = {shape}"
  by (auto simp: node_refs_def cull_result_def)

text \<open>A property of entries that holds for what is stored holds for all of \<open>new_nodes\<close>.\<close>

lemma update_nodes_all:
  assumes "update_nodes ns new_ids sl indent y todo (net, s) = Inr (net', s')"
    and "distinct todo"
    and "\<And>j m. map_of (new_nodes s) j = Some m \<Longrightarrow> \<Phi> j m"
    and "\<And>k n ins nid. k \<in> set todo \<Longrightarrow> map_of net k = Some n \<Longrightarrow>
           renumber_inputs new_ids (inputs n) = Inr ins \<Longrightarrow> map_of new_ids k = Some nid \<Longrightarrow>
           \<Phi> nid (plain_result ins sl indent y n)"
    and "\<And>k n ins nid shape. k \<in> set todo \<Longrightarrow> map_of net k = Some n \<Longrightarrow>
           renumber_inputs new_ids (inputs n) = Inr ins \<Longrightarrow> map_of new_ids k = Some nid \<Longrightarrow>
           new_id s \<le> shape \<Longrightarrow> shape < new_id s' \<Longrightarrow>
           \<Phi> nid (cull_result shape sl indent y n) \<and> \<Phi> shape (dup_result ins sl indent y n)"
    and "map_of (new_nodes s') j = Some m"
  shows "\<Phi> j m"
  using assms
proof (induction todo arbitrary: net s)
  case Nil
  then show ?case by simp
next
  case (Cons t rest)
  from Cons.prems(1) obtain net1 s1 where
    h: "update_node ns new_ids sl indent y t (net, s) = Inr (net1, s1)" and
    r: "update_nodes ns new_ids sl indent y rest (net1, s1) = Inr (net', s')"
    by (auto split: sum.splits)
  note f = update_node_frame[OF h]
  note fr = update_nodes_frame[OF r]
  from h obtain n ins nid where
    n: "map_of net t = Some n" and ins: "renumber_inputs new_ids (inputs n) = Inr ins" and
    nid: "map_of new_ids t = Some nid" and
    c1: "name n = ''Shape'' \<and> \<not> any_cull ns net \<Longrightarrow>
       net1 = AList.update t (cull_result (new_id s) sl indent y n) net \<and>
       s1 = s\<lparr>new_id := new_id s + 1,
            new_nodes := AList.update nid (cull_result (new_id s) sl indent y n)
               (AList.update (new_id s) (dup_result ins sl indent y n) (new_nodes s))\<rparr>" and
    c2: "\<not> (name n = ''Shape'' \<and> \<not> any_cull ns net) \<Longrightarrow>
       net1 = AList.update t (plain_result ins sl indent y n) net \<and>
       s1 = s\<lparr>new_nodes := AList.update nid (plain_result ins sl indent y n) (new_nodes s)\<rparr>"
    by (rule update_node_Inr) blast
  have old1: "\<Phi> j' m'" if m': "map_of (new_nodes s1) j' = Some m'" for j' m'
  proof (cases "name n = ''Shape'' \<and> \<not> any_cull ns net")
    case True
    note e = c1[OF True]
    have lt: "new_id s < new_id s'" using e fr by simp
    have \<Phi>: "\<Phi> nid (cull_result (new_id s) sl indent y n) \<and>
        \<Phi> (new_id s) (dup_result ins sl indent y n)"
      by (rule Cons.prems(5)[OF _ n ins nid _ lt]) simp_all
    have "new_nodes s1 = AList.update nid (cull_result (new_id s) sl indent y n)
               (AList.update (new_id s) (dup_result ins sl indent y n) (new_nodes s))"
      using e by simp
    with m' have "j' = nid \<and> m' = cull_result (new_id s) sl indent y n \<or>
        j' = new_id s \<and> m' = dup_result ins sl indent y n \<or>
        map_of (new_nodes s) j' = Some m'"
      by (simp add: update_conv' split: if_splits)
    with \<Phi> Cons.prems(3) show ?thesis by blast
  next
    case False
    note e = c2[OF False]
    have \<Phi>: "\<Phi> nid (plain_result ins sl indent y n)"
      by (rule Cons.prems(4)[OF _ n ins nid]) simp
    have "new_nodes s1 = AList.update nid (plain_result ins sl indent y n) (new_nodes s)"
      using e by simp
    with m' have "j' = nid \<and> m' = plain_result ins sl indent y n \<or>
        map_of (new_nodes s) j' = Some m'"
      by (simp add: update_conv' split: if_splits)
    with \<Phi> Cons.prems(3) show ?thesis by blast
  qed
  have same: "map_of net1 k = map_of net k" if "k \<in> set rest" for k
    using f(4)[of k] that Cons.prems(2) by auto
  show ?case
  proof (rule Cons.IH[OF r _ old1 _ _ Cons.prems(6)])
    show "distinct rest" using Cons.prems(2) by simp
  next
    fix k n' ins' nid'
    assume "k \<in> set rest" "map_of net1 k = Some n'" "renumber_inputs new_ids (inputs n') = Inr ins'"
      "map_of new_ids k = Some nid'"
    then show "\<Phi> nid' (plain_result ins' sl indent y n')"
      using Cons.prems(4)[of k n' ins' nid'] same by simp
  next
    fix k n' ins' nid' shape
    assume "k \<in> set rest" "map_of net1 k = Some n'" "renumber_inputs new_ids (inputs n') = Inr ins'"
      "map_of new_ids k = Some nid'" "new_id s1 \<le> shape" "shape < new_id s'"
    then show "\<Phi> nid' (cull_result shape sl indent y n') \<and> \<Phi> shape (dup_result ins' sl indent y n')"
      using Cons.prems(5)[of k n' ins' nid' shape] same f(1) by simp
  qed
qed

lemma update_node_keys:
  assumes "update_node ns new_ids sl indent y t (net, s) = Inr (net1, s1)"
  shows "fst ` set (new_nodes s) \<subseteq> fst ` set (new_nodes s1)"
    and "\<And>j. new_id s \<le> j \<Longrightarrow> j < new_id s1 \<Longrightarrow> j \<in> fst ` set (new_nodes s1)"
proof -
  from assms obtain n ins nid where
    c1: "name n = ''Shape'' \<and> \<not> any_cull ns net \<Longrightarrow>
       net1 = AList.update t (cull_result (new_id s) sl indent y n) net \<and>
       s1 = s\<lparr>new_id := new_id s + 1,
            new_nodes := AList.update nid (cull_result (new_id s) sl indent y n)
               (AList.update (new_id s) (dup_result ins sl indent y n) (new_nodes s))\<rparr>" and
    c2: "\<not> (name n = ''Shape'' \<and> \<not> any_cull ns net) \<Longrightarrow>
       net1 = AList.update t (plain_result ins sl indent y n) net \<and>
       s1 = s\<lparr>new_nodes := AList.update nid (plain_result ins sl indent y n) (new_nodes s)\<rparr>"
    by (rule update_node_Inr) blast
  have "fst ` set (new_nodes s) \<subseteq> fst ` set (new_nodes s1) \<and>
      (\<forall>j. new_id s \<le> j \<and> j < new_id s1 \<longrightarrow> j \<in> fst ` set (new_nodes s1))"
  proof (cases "name n = ''Shape'' \<and> \<not> any_cull ns net")
    case True
    note e = c1[OF True]
    have "fst ` set (new_nodes s1) = {nid} \<union> ({new_id s} \<union> fst ` set (new_nodes s))"
      and "new_id s1 = new_id s + 1"
      using e by (simp_all add: dom_update)
    then show ?thesis by auto
  next
    case False
    note e = c2[OF False]
    have "fst ` set (new_nodes s1) = {nid} \<union> fst ` set (new_nodes s)"
      and "new_id s1 = new_id s"
      using e by (simp_all add: dom_update)
    then show ?thesis by auto
  qed
  then show "fst ` set (new_nodes s) \<subseteq> fst ` set (new_nodes s1)"
    and "\<And>j. new_id s \<le> j \<Longrightarrow> j < new_id s1 \<Longrightarrow> j \<in> fst ` set (new_nodes s1)"
    by blast+
qed

lemma update_nodes_keys:
  assumes "update_nodes ns new_ids sl indent y todo (net, s) = Inr (net', s')"
  shows "fst ` set (new_nodes s) \<subseteq> fst ` set (new_nodes s') \<and>
    (\<forall>j. new_id s \<le> j \<and> j < new_id s' \<longrightarrow> j \<in> fst ` set (new_nodes s'))"
  using assms
proof (induction todo arbitrary: net s)
  case Nil
  then show ?case by auto
next
  case (Cons t rest)
  from Cons.prems(1) obtain net1 s1 where
    h: "update_node ns new_ids sl indent y t (net, s) = Inr (net1, s1)" and
    r: "update_nodes ns new_ids sl indent y rest (net1, s1) = Inr (net', s')"
    by (auto split: sum.splits)
  note k = update_node_keys[OF h]
  from Cons.IH[OF r] have
    i1: "fst ` set (new_nodes s1) \<subseteq> fst ` set (new_nodes s')" and
    i2: "\<And>j. new_id s1 \<le> j \<Longrightarrow> j < new_id s' \<Longrightarrow> j \<in> fst ` set (new_nodes s')"
    by blast+
  have "j \<in> fst ` set (new_nodes s')" if a: "new_id s \<le> j" and b: "j < new_id s'" for j
  proof (cases "j < new_id s1")
    case True
    from k(2)[OF a True] i1 show ?thesis by blast
  next
    case False
    then have "new_id s1 \<le> j" by simp
    from i2[OF this b] show ?thesis .
  qed
  moreover have "fst ` set (new_nodes s) \<subseteq> fst ` set (new_nodes s')"
    using k(1) i1 by (rule subset_trans)
  ultimately show ?case by blast
qed

lemma update_network_frame:
  assumes "update_network h network indent y s = Inr (out, s')"
  shows "new_id s + int (length (node_set h network)) \<le> new_id s'"
    and "new_id s' \<le> new_id s + int (length (node_set h network)) + 1"
    and "y_position s' = y_position s"
    and "\<And>j. j < new_id s \<or> new_id s' \<le> j \<Longrightarrow> map_of (new_nodes s') j = map_of (new_nodes s) j"
    and "fst ` set (new_nodes s) \<subseteq> fst ` set (new_nodes s')"
    and "\<And>j. new_id s \<le> j \<Longrightarrow> j < new_id s' \<Longrightarrow> j \<in> fst ` set (new_nodes s')"
    and "new_id s \<le> out" and "out < new_id s'"
proof -
  let ?ns = "node_set h network"
  let ?ids = "new_ids_of ?ns (new_id s)"
  let ?s1 = "s\<lparr>new_id := new_id s + int (length ?ns)\<rparr>"
  from assms obtain out_id rest output_node n oi l ins net' where
    o: "outputs network = out_id # rest" "map_of (nodes network) out_id = Some output_node" and
    out: "map_of ?ids n = Some out" and
    u: "update_nodes ?ns ?ids (fst (position output_node)) indent y ?ns (nodes network, ?s1) = Inr (net', s')"
    by (rule update_network_Inr)
  note fr = update_nodes_frame[OF u]
  note ks = update_nodes_keys[OF u]
  show a: "new_id s + int (length ?ns) \<le> new_id s'" using fr by simp
  show "new_id s' \<le> new_id s + int (length ?ns) + 1"
    using update_nodes_one_cull[OF u] by simp
  show "y_position s' = y_position s" using fr by simp
  show "map_of (new_nodes s') j = map_of (new_nodes s) j" if j: "j < new_id s \<or> new_id s' \<le> j" for j
  proof -
    have "\<forall>t\<in>set ?ns. map_of ?ids t \<noteq> Some j"
    proof
      fix t assume "t \<in> set ?ns"
      show "map_of ?ids t \<noteq> Some j"
      proof
        assume "map_of ?ids t = Some j"
        from new_ids_of_Some[OF node_set_distinct this] obtain i where
          "i < length ?ns" "j = new_id s + int i" by blast
        with j a show False by linarith
      qed
    qed
    moreover have "j < new_id ?s1 \<or> new_id s' \<le> j" using j by auto
    ultimately have "map_of (new_nodes s') j = map_of (new_nodes ?s1) j" using fr by blast
    then show ?thesis by simp
  qed
  show "fst ` set (new_nodes s) \<subseteq> fst ` set (new_nodes s')" using ks by simp
  have below: "\<forall>t\<in>set ?ns. \<forall>v. map_of ?ids t = Some v \<longrightarrow> v < new_id ?s1"
    using new_ids_of_Some[of ?ns "new_id s"] by fastforce
  have tgt: "new_id s + int i \<in> fst ` set (new_nodes s')" if i: "i < length ?ns" for i
  proof -
    have k: "?ns ! i \<in> set ?ns" using i by simp
    have m: "map_of ?ids (?ns ! i) = Some (new_id s + int i)"
      using new_ids_of_nth[OF node_set_distinct i] .
    from update_nodes_emitted[OF u node_set_distinct new_ids_of_inj[OF node_set_distinct] below k]
    have "\<exists>v. map_of (new_nodes s') (new_id s + int i) = Some v"
      using m by (auto elim!: emitted_cases)
    then show ?thesis by (metis domI dom_map_of_conv_image_fst)
  qed
  show "j \<in> fst ` set (new_nodes s')" if "new_id s \<le> j" "j < new_id s'" for j
  proof (cases "j < new_id s + int (length ?ns)")
    case True
    with that have "nat (j - new_id s) < length ?ns" "j = new_id s + int (nat (j - new_id s))" by auto
    with tgt show ?thesis by metis
  next
    case False
    with ks that show ?thesis by simp
  qed
  from new_ids_of_Some[OF node_set_distinct out] obtain i where
    i: "i < length ?ns" "out = new_id s + int i" by blast
  show "new_id s \<le> out" using i by simp
  show "out < new_id s'" using i a by linarith
qed

lemma renumber_inputs_no_assert: "renumber_inputs new_ids ins \<noteq> Inl AssertionError"
  by (induction new_ids ins rule: renumber_inputs.induct) (auto split: option.splits sum.splits)

lemma update_node_no_assert: "update_node ns new_ids sl indent y k st \<noteq> Inl AssertionError"
  using renumber_inputs_no_assert
  by (auto simp: update_node_def Let_def split: prod.splits option.splits sum.splits)

lemma update_nodes_no_assert: "update_nodes ns new_ids sl indent y todo st \<noteq> Inl AssertionError"
  using update_node_no_assert
  by (induction todo arbitrary: st) (auto split: sum.splits)

lemma update_network_no_assert: "update_network h network indent y s \<noteq> Inl AssertionError"
  using update_nodes_no_assert
  by (auto simp: update_network_def Let_def split: prod.splits list.splits option.splits
        node_input.splits sum.splits)

lemma update_network_all:
  assumes run: "update_network h network indent y s = Inr (out, s')"
    and old: "\<And>j m. map_of (new_nodes s) j = Some m \<Longrightarrow> \<Phi> j m"
    and plain: "\<And>k n ins nid sl. k \<in> set (node_set h network) \<Longrightarrow> map_of (nodes network) k = Some n \<Longrightarrow>
           renumber_inputs (new_ids_of (node_set h network) (new_id s)) (inputs n) = Inr ins \<Longrightarrow>
           new_id s \<le> nid \<Longrightarrow> nid < new_id s + int (length (node_set h network)) \<Longrightarrow>
           \<Phi> nid (plain_result ins sl indent y n)"
    and cull: "\<And>k n ins nid shape sl. k \<in> set (node_set h network) \<Longrightarrow> map_of (nodes network) k = Some n \<Longrightarrow>
           renumber_inputs (new_ids_of (node_set h network) (new_id s)) (inputs n) = Inr ins \<Longrightarrow>
           new_id s \<le> nid \<Longrightarrow> nid < new_id s + int (length (node_set h network)) \<Longrightarrow>
           new_id s + int (length (node_set h network)) \<le> shape \<Longrightarrow> shape < new_id s' \<Longrightarrow>
           \<Phi> nid (cull_result shape sl indent y n) \<and> \<Phi> shape (dup_result ins sl indent y n)"
    and m: "map_of (new_nodes s') j = Some m"
  shows "\<Phi> j m"
proof -
  let ?ns = "node_set h network"
  let ?ids = "new_ids_of ?ns (new_id s)"
  let ?s1 = "s\<lparr>new_id := new_id s + int (length ?ns)\<rparr>"
  from run obtain output_node :: node and net' where
    u: "update_nodes ?ns ?ids (fst (position output_node)) indent y ?ns (nodes network, ?s1) = Inr (net', s')"
    by (elim update_network_Inr) blast
  have rng: "new_id s \<le> nid \<and> nid < new_id s + int (length ?ns)" if "map_of ?ids k = Some nid" for k nid
    using new_ids_of_Some[OF node_set_distinct that] by auto
  show ?thesis
  proof (rule update_nodes_all[OF u node_set_distinct _ _ _ m])
    fix j m assume "map_of (new_nodes ?s1) j = Some m"
    then show "\<Phi> j m" using old by simp
  next
    fix k n ins nid
    assume "k \<in> set ?ns" "map_of (nodes network) k = Some n"
      "renumber_inputs ?ids (inputs n) = Inr ins" "map_of ?ids k = Some nid"
    then show "\<Phi> nid (plain_result ins (fst (position output_node)) indent y n)"
      using plain rng by blast
  next
    fix k n ins nid shape
    assume "k \<in> set ?ns" "map_of (nodes network) k = Some n"
      "renumber_inputs ?ids (inputs n) = Inr ins" "map_of ?ids k = Some nid"
      "new_id ?s1 \<le> shape" "shape < new_id s'"
    then show "\<Phi> nid (cull_result shape (fst (position output_node)) indent y n) \<and>
        \<Phi> shape (dup_result ins (fst (position output_node)) indent y n)"
      using cull[of k n ins nid shape] rng[of k nid] by simp
  qed
qed

text \<open>References: every reference of a node the Layer branch stores is a key afterwards.\<close>

lemma update_network_refs:
  assumes run: "update_network h network indent y s = Inr (out, s')"
    and old: "\<And>j m. map_of (new_nodes s) j = Some m \<Longrightarrow> node_refs m \<subseteq> K"
    and K: "fst ` set (new_nodes s') \<subseteq> K"
    and m: "map_of (new_nodes s') j = Some m"
  shows "node_refs m \<subseteq> K"
proof -
  let ?ns = "node_set h network"
  let ?ids = "new_ids_of ?ns (new_id s)"
  note f = update_network_frame[OF run]
  have ins_ok: "{r. \<exists>oi l. Node r oi l \<in> set ins} \<subseteq> K"
    if "renumber_inputs ?ids (inputs n) = Inr ins" for n :: node and ins
  proof
    fix r assume "r \<in> {r. \<exists>oi l. Node r oi l \<in> set ins}"
    then obtain oi l where "Node r oi l \<in> set ins" by blast
    from renumber_inputs_refs[OF that this] obtain k where "map_of ?ids k = Some r" by blast
    from new_ids_of_Some[OF node_set_distinct this] have "new_id s \<le> r" "r < new_id s'"
      using f(1) by auto
    with f(6) K show "r \<in> K" by blast
  qed
  show ?thesis
  proof (rule update_network_all[OF run _ _ _ m, where \<Phi> = "\<lambda>j m. node_refs m \<subseteq> K"])
    show "\<And>j m. map_of (new_nodes s) j = Some m \<Longrightarrow> node_refs m \<subseteq> K" by (rule old)
  next
    fix k and n :: node and ins nid sl
    assume "renumber_inputs ?ids (inputs n) = Inr ins"
    then show "node_refs (plain_result ins sl indent y n) \<subseteq> K"
      using ins_ok by (simp add: node_refs_plain)
  next
    fix k and n :: node and ins nid shape sl
    assume "renumber_inputs ?ids (inputs n) = Inr ins"
      "new_id s + int (length ?ns) \<le> shape" "shape < new_id s'"
    then show "node_refs (cull_result shape sl indent y n) \<subseteq> K \<and>
        node_refs (dup_result ins sl indent y n) \<subseteq> K"
      using ins_ok f(6)[of shape] K by (auto simp: node_refs_dup node_refs_cull)
  qed
qed


section \<open>The traversal\<close>

lemma update_layer_unfold:
  "update_layer h (Data folder layer) indent lid nxt s =
     (case folder_step h folder indent (s\<lparr>y_position := y_position s + 3\<rparr>) of
        Inl e \<Rightarrow> Inl e
      | Inr (output1, s4) \<Rightarrow>
         (case layer_step h layer indent (y_position s) output1 s4 of
            Inl e \<Rightarrow> Inl e
          | Inr (output, s6) \<Rightarrow> store_layer_node output nxt indent (y_position s) lid s6))"
  unfolding folder_step_def layer_step_def by (simp add: next_y_position_def)

lemma update_layer_Inr:
  assumes "update_layer h (Data folder layer) indent lid nxt s = Inr s'"
  obtains output1 s4 outp s6 where
    "folder_step h folder indent (s\<lparr>y_position := y_position s + 3\<rparr>) = Inr (output1, s4)"
    "layer_step h layer indent (y_position s) output1 s4 = Inr (outp, s6)"
    "store_layer_node outp nxt indent (y_position s) lid s6 = Inr s'"
  using assms unfolding update_layer_unfold by (auto split: sum.splits)

lemma folder_step_Inr:
  assumes "folder_step h folder indent s1 = Inr (output1, s4)"
  obtains "folder = None" "output1 = None" "s4 = s1"
  | layers where "folder = Some layers" "layers \<noteq> []" "output1 = Some (new_id s1)"
      "update_folder_layers h (map (\<lambda>i. new_id s1 + int i) [0..<length layers]) indent 0 (rev layers)
         (s1\<lparr>new_id := new_id s1 + int (length layers) + 1\<rparr>) = Inr s4"
proof (cases folder)
  case None
  with assms that(1) show ?thesis by (simp add: folder_step_def)
next
  case (Some layers)
  let ?ids = "map (\<lambda>i. new_id s1 + int i) [0..<length layers]"
  from assms Some have
    u: "update_folder_layers h ?ids indent 0 (rev layers)
         (s1\<lparr>new_id := new_id s1 + int (length layers) + 1\<rparr>) = Inr s4"
    and i: "?ids \<noteq> []" "output1 = Some (hd ?ids)"
    by (auto simp: folder_step_def new_layer_ids_eq split: sum.splits list.splits)
  from i(1) have ne: "layers \<noteq> []" by simp
  then have "hd ?ids = new_id s1" by (simp add: hd_map upt_conv_Cons hd_conv_nth)
  with that(2)[OF Some ne _ u] i(2) show ?thesis by simp
qed

lemma layer_step_Inr:
  assumes "layer_step h layer indent y output1 s4 = Inr (output, s6)"
  obtains "layer = None" "output = output1" "s6 = s4"
  | network out where "layer = Some network" "output = Some out"
      "update_network h network indent y s4 = Inr (out, s6)"
  using assms by (cases layer) (auto simp: layer_step_def split: sum.splits)

lemma store_layer_node_Inr:
  assumes "store_layer_node output nxt indent y lid s6 = Inr s'"
  shows "s' = s6\<lparr>new_nodes := AList.update lid (layer_node output nxt indent y) (new_nodes s6)\<rparr>"
    and "\<And>out. output = Some out \<Longrightarrow> out \<in> fst ` set (new_nodes s6)"
  using assms by (auto simp: store_layer_node_def split: if_splits)

lemma update_folder_layers_Cons:
  assumes "update_folder_layers h ids indent index (d # rest) s = Inr s'"
  obtains s1 where "index < length ids"
    "update_layer h d (indent + 5) (ids ! index)
       (if index + 1 < length ids then Some (ids ! (index + 1)) else None) s = Inr s1"
    "update_folder_layers h ids indent (index + 1) rest s1 = Inr s'"
  using assms by (auto simp: Let_def split: if_splits sum.splits)

declare update_layer.simps [simp del]

lemma layer_frameD:
  assumes "layer_frame lid nxt indent s s'"
  shows "new_id s \<le> new_id s'" and "y_position s < y_position s'"
    and "fst ` set (new_nodes s) \<subseteq> fst ` set (new_nodes s')"
    and "\<And>j. j \<noteq> lid \<Longrightarrow> j < new_id s \<or> new_id s' \<le> j \<Longrightarrow>
           map_of (new_nodes s') j = map_of (new_nodes s) j"
    and "\<exists>outp. map_of (new_nodes s') lid = Some (layer_node outp nxt indent (y_position s))"
  using assms unfolding layer_frame_def by simp_all

lemma layer_frame_key:
  assumes "layer_frame lid nxt indent s s'"
  shows "lid \<in> fst ` set (new_nodes s')"
proof -
  from layer_frameD(5)[OF assms] obtain m where "map_of (new_nodes s') lid = Some m" by blast
  then show ?thesis by (metis domI dom_map_of_conv_image_fst)
qed

lemma folder_frameD:
  assumes "folder_frame ids index n s s'"
  shows "new_id s \<le> new_id s'" and "y_position s \<le> y_position s'"
    and "0 < n \<Longrightarrow> index + n \<le> length ids"
    and "fst ` set (new_nodes s) \<subseteq> fst ` set (new_nodes s')"
    and "\<And>i. index \<le> i \<Longrightarrow> i < index + n \<Longrightarrow> ids ! i \<in> fst ` set (new_nodes s')"
    and "\<And>j. j \<notin> set (drop index ids) \<Longrightarrow> j < new_id s \<or> new_id s' \<le> j \<Longrightarrow>
           map_of (new_nodes s') j = map_of (new_nodes s) j"
  using assms unfolding folder_frame_def by simp_all

lemma update_folder_layers_frame:
  assumes "update_folder_layers h ids indent index ls s = Inr s'"
    and "\<forall>d\<in>set ls. frame_holds h d"
  shows "folder_frame ids index (length ls) s s'"
  using assms
proof (induction ls arbitrary: index s)
  case Nil
  then show ?case by (auto simp: folder_frame_def)
next
  case (Cons d rest)
  from Cons.prems(1) obtain s1 where
    i: "index < length ids" and
    c: "update_layer h d (indent + 5) (ids ! index)
       (if index + 1 < length ids then Some (ids ! (index + 1)) else None) s = Inr s1" and
    r: "update_folder_layers h ids indent (index + 1) rest s1 = Inr s'"
    by (rule update_folder_layers_Cons)
  have "layer_frame (ids ! index) (if index + 1 < length ids then Some (ids ! (index + 1)) else None)
      (indent + 5) s s1"
    using Cons.prems(2) c by (simp add: frame_holds_def)
  note f = layer_frameD[OF this] layer_frame_key[OF this]
  have "folder_frame ids (index + 1) (length rest) s1 s'"
    by (rule Cons.IH[OF r]) (use Cons.prems(2) in simp)
  note ih = folder_frameD[OF this]
  have a: "new_id s \<le> new_id s'" using f(1) ih(1) by linarith
  have b: "y_position s \<le> y_position s'" using f(2) ih(2) by linarith
  have c': "index + length (d # rest) \<le> length ids"
  proof (cases rest)
    case Nil
    with i show ?thesis by simp
  next
    case (Cons x xs)
    with ih(3) show ?thesis by simp
  qed
  have d': "fst ` set (new_nodes s) \<subseteq> fst ` set (new_nodes s')"
    using f(3) ih(4) by (rule subset_trans)
  have e: "ids ! i \<in> fst ` set (new_nodes s')" if "index \<le> i" "i < index + length (d # rest)" for i
  proof (cases "i = index")
    case True
    with f(6) ih(4) show ?thesis by blast
  next
    case False
    with that have "index + 1 \<le> i" "i < index + 1 + length rest" by simp_all
    then show ?thesis by (rule ih(5))
  qed
  have g: "map_of (new_nodes s') j = map_of (new_nodes s) j"
    if j: "j \<notin> set (drop index ids)" "j < new_id s \<or> new_id s' \<le> j" for j
  proof -
    have dr: "drop index ids = ids ! index # drop (index + 1) ids"
      using i by (simp add: Cons_nth_drop_Suc)
    from j(1) dr have j1: "j \<noteq> ids ! index" and j2: "j \<notin> set (drop (index + 1) ids)" by auto
    have "j < new_id s1 \<or> new_id s' \<le> j" using j(2) f(1) by linarith
    with j2 have "map_of (new_nodes s') j = map_of (new_nodes s1) j" by (rule ih(6))
    also have "map_of (new_nodes s1) j = map_of (new_nodes s) j"
    proof (rule f(4)[OF j1])
      show "j < new_id s \<or> new_id s1 \<le> j" using j(2) ih(1) by linarith
    qed
    finally show ?thesis .
  qed
  show ?case
    unfolding folder_frame_def using a b c' d' e g by simp
qed

lemma folder_step_frame:
  assumes "folder_step h folder indent s1 = Inr (output1, s4)"
    and "\<forall>layers. folder = Some layers \<longrightarrow> (\<forall>d\<in>set layers. frame_holds h d)"
  shows "new_id s1 \<le> new_id s4" and "y_position s1 \<le> y_position s4"
    and "fst ` set (new_nodes s1) \<subseteq> fst ` set (new_nodes s4)"
    and "\<And>j. j < new_id s1 \<or> new_id s4 \<le> j \<Longrightarrow> map_of (new_nodes s4) j = map_of (new_nodes s1) j"
    and "\<And>out. output1 = Some out \<Longrightarrow> out \<in> fst ` set (new_nodes s4)"
proof -
  have "new_id s1 \<le> new_id s4 \<and> y_position s1 \<le> y_position s4 \<and>
    fst ` set (new_nodes s1) \<subseteq> fst ` set (new_nodes s4) \<and>
    (\<forall>j. j < new_id s1 \<or> new_id s4 \<le> j \<longrightarrow> map_of (new_nodes s4) j = map_of (new_nodes s1) j) \<and>
    (\<forall>out. output1 = Some out \<longrightarrow> out \<in> fst ` set (new_nodes s4))"
    using assms(1)
  proof (cases rule: folder_step_Inr)
    case 1
    then show ?thesis by simp
  next
    case (2 layers)
    let ?c = "new_id s1"
    let ?N = "length layers"
    let ?ids = "map (\<lambda>i. ?c + int i) [0..<?N]"
    let ?s2 = "s1\<lparr>new_id := ?c + int ?N + 1\<rparr>"
    have "folder_frame ?ids 0 (length (rev layers)) ?s2 s4"
      by (rule update_folder_layers_frame[OF 2(4)]) (use assms(2) 2(1) in simp)
    note ff = folder_frameD[OF this]
    have N: "0 < ?N" using 2(2) by simp
    have ids: "j \<in> set ?ids \<Longrightarrow> ?c \<le> j \<and> j < ?c + int ?N" for j by auto
    have a: "new_id s1 \<le> new_id s4" using ff(1) by simp
    have b: "y_position s1 \<le> y_position s4" using ff(2) by simp
    have c: "fst ` set (new_nodes s1) \<subseteq> fst ` set (new_nodes s4)" using ff(4) by simp
    have d: "map_of (new_nodes s4) j = map_of (new_nodes s1) j" if j: "j < new_id s1 \<or> new_id s4 \<le> j" for j
    proof -
      have "j \<notin> set (drop 0 ?ids)" using ids[of j] j ff(1) by auto
      moreover have "j < new_id ?s2 \<or> new_id s4 \<le> j" using j by auto
      ultimately have "map_of (new_nodes s4) j = map_of (new_nodes ?s2) j" by (rule ff(6))
      then show ?thesis by simp
    qed
    have "?ids ! 0 \<in> fst ` set (new_nodes s4)"
      by (rule ff(5)) (use N in simp_all)
    then have e: "new_id s1 \<in> fst ` set (new_nodes s4)" using N by simp
    from a b c d e 2(3) show ?thesis by simp
  qed
  then show "new_id s1 \<le> new_id s4" and "y_position s1 \<le> y_position s4"
    and "fst ` set (new_nodes s1) \<subseteq> fst ` set (new_nodes s4)"
    and "\<And>j. j < new_id s1 \<or> new_id s4 \<le> j \<Longrightarrow> map_of (new_nodes s4) j = map_of (new_nodes s1) j"
    and "\<And>out. output1 = Some out \<Longrightarrow> out \<in> fst ` set (new_nodes s4)"
    by blast+
qed

lemma layer_step_frame:
  assumes "layer_step h layer indent y output1 s4 = Inr (outp, s6)"
    and "\<forall>out. output1 = Some out \<longrightarrow> out \<in> fst ` set (new_nodes s4)"
  shows "new_id s4 \<le> new_id s6" and "y_position s6 = y_position s4"
    and "fst ` set (new_nodes s4) \<subseteq> fst ` set (new_nodes s6)"
    and "\<And>j. j < new_id s4 \<or> new_id s6 \<le> j \<Longrightarrow> map_of (new_nodes s6) j = map_of (new_nodes s4) j"
    and "\<And>out. outp = Some out \<Longrightarrow> out \<in> fst ` set (new_nodes s6)"
proof -
  have "new_id s4 \<le> new_id s6 \<and> y_position s6 = y_position s4 \<and>
    fst ` set (new_nodes s4) \<subseteq> fst ` set (new_nodes s6) \<and>
    (\<forall>j. j < new_id s4 \<or> new_id s6 \<le> j \<longrightarrow> map_of (new_nodes s6) j = map_of (new_nodes s4) j) \<and>
    (\<forall>out. outp = Some out \<longrightarrow> out \<in> fst ` set (new_nodes s6))"
    using assms(1)
  proof (cases rule: layer_step_Inr)
    case 1
    with assms(2) show ?thesis by simp
  next
    case (2 network out)
    note f = update_network_frame[OF 2(3)]
    have "out \<in> fst ` set (new_nodes s6)" using f(6)[OF f(7) f(8)] .
    moreover have "new_id s4 \<le> new_id s6" using f(1) by linarith
    ultimately show ?thesis using f(3) f(4) f(5) 2(2) by simp
  qed
  then show "new_id s4 \<le> new_id s6" and "y_position s6 = y_position s4"
    and "fst ` set (new_nodes s4) \<subseteq> fst ` set (new_nodes s6)"
    and "\<And>j. j < new_id s4 \<or> new_id s6 \<le> j \<Longrightarrow> map_of (new_nodes s6) j = map_of (new_nodes s4) j"
    and "\<And>out. outp = Some out \<Longrightarrow> out \<in> fst ` set (new_nodes s6)"
    by blast+
qed

lemma update_layer_frame_holds: "frame_holds h d"
proof (induction d)
  case (Data folder layer)
  show ?case
    unfolding frame_holds_def
  proof (intro allI impI)
  fix indent lid nxt s s'
  assume run: "update_layer h (Data folder layer) indent lid nxt s = Inr s'"
  let ?s0 = "s\<lparr>y_position := y_position s + 3\<rparr>"
  from run obtain output1 s4 outp s6 where
    fs: "folder_step h folder indent ?s0 = Inr (output1, s4)" and
    ls: "layer_step h layer indent (y_position s) output1 s4 = Inr (outp, s6)" and
    st: "store_layer_node outp nxt indent (y_position s) lid s6 = Inr s'"
    by (rule update_layer_Inr)
  have kids: "\<forall>layers. folder = Some layers \<longrightarrow> (\<forall>d\<in>set layers. frame_holds h d)"
    using Data.IH by auto
  note f = folder_step_frame[OF fs kids]
  have o1: "\<forall>out. output1 = Some out \<longrightarrow> out \<in> fst ` set (new_nodes s4)"
    using f(5) by blast
  note l = layer_step_frame[OF ls o1]
  note e = store_layer_node_Inr(1)[OF st]
  have 1: "new_id s \<le> new_id s'" using f(1) l(1) e by simp
  have 2: "y_position s < y_position s'" using f(2) l(2) e by simp
  have 3: "fst ` set (new_nodes s) \<subseteq> fst ` set (new_nodes s')"
  proof -
    have "fst ` set (new_nodes s) \<subseteq> fst ` set (new_nodes s6)" using f(3) l(3) by auto
    also have "\<dots> \<subseteq> fst ` set (new_nodes s')" using e by (auto simp: dom_update)
    finally show ?thesis .
  qed
  have 4: "map_of (new_nodes s') j = map_of (new_nodes s) j"
    if j: "j \<noteq> lid" "j < new_id s \<or> new_id s' \<le> j" for j
  proof -
    have n: "new_id s' = new_id s6" using e by simp
    have "map_of (new_nodes s') j = map_of (new_nodes s6) j" using e j(1) by (simp add: update_conv')
    also have "\<dots> = map_of (new_nodes s4) j"
    proof (rule l(4))
      show "j < new_id s4 \<or> new_id s6 \<le> j" using j(2) f(1) n by auto
    qed
    also have "\<dots> = map_of (new_nodes ?s0) j"
    proof (rule f(4))
      show "j < new_id ?s0 \<or> new_id s4 \<le> j" using j(2) l(1) n by auto
    qed
    finally show ?thesis by simp
  qed
  have 5: "map_of (new_nodes s') lid = Some (layer_node outp nxt indent (y_position s))"
    using e by (simp add: update_conv')
  show "layer_frame lid nxt indent s s'" unfolding layer_frame_def using 1 2 3 4 5 by blast
  qed
qed

lemma update_layer_frame:
  "update_layer h d indent lid nxt s = Inr s' \<Longrightarrow> layer_frame lid nxt indent s s'"
  using update_layer_frame_holds[of h d] by (simp add: frame_holds_def)

lemma update_folder_layers_no_assert:
  assumes "\<forall>d\<in>set ls. no_assert h d"
  shows "update_folder_layers h ids indent index ls s \<noteq> Inl AssertionError"
  using assms
proof (induction ls arbitrary: index s)
  case Nil
  show ?case by simp
next
  case (Cons d rest)
  have d: "update_layer h d (indent + 5) (ids ! index)
      (if index + 1 < length ids then Some (ids ! (index + 1)) else None) s \<noteq> Inl AssertionError"
    using Cons.prems by (simp add: no_assert_def)
  have r: "update_folder_layers h ids indent (index + 1) rest s1 \<noteq> Inl AssertionError" for s1
    by (rule Cons.IH) (use Cons.prems in simp)
  show ?case using d r by (auto simp: Let_def split: sum.splits)
qed

lemma folder_step_no_assert:
  assumes "\<forall>layers. folder = Some layers \<longrightarrow> (\<forall>d\<in>set layers. no_assert h d)"
  shows "folder_step h folder indent s1 \<noteq> Inl AssertionError"
proof (cases folder)
  case None
  then show ?thesis by (simp add: folder_step_def)
next
  case (Some layers)
  have "update_folder_layers h ids indent 0 (rev layers) s2 \<noteq> Inl AssertionError" for ids s2
    by (rule update_folder_layers_no_assert) (use assms Some in simp)
  then show ?thesis using Some
    by (auto simp: folder_step_def Let_def split: prod.splits sum.splits list.splits)
qed

lemma layer_step_no_assert: "layer_step h layer indent y output1 s4 \<noteq> Inl AssertionError"
  using update_network_no_assert
  by (cases layer) (auto simp: layer_step_def split: sum.splits)

lemma update_layer_no_assert_holds: "no_assert h d"
proof (induction d)
  case (Data folder layer)
  show ?case
    unfolding no_assert_def
  proof (intro allI notI)
    fix indent lid nxt s
    assume a: "update_layer h (Data folder layer) indent lid nxt s = Inl AssertionError"
    let ?s0 = "s\<lparr>y_position := y_position s + 3\<rparr>"
    have kids: "\<forall>layers. folder = Some layers \<longrightarrow> (\<forall>d\<in>set layers. no_assert h d)"
      using Data.IH by auto
    have fkids: "\<forall>layers. folder = Some layers \<longrightarrow> (\<forall>d\<in>set layers. frame_holds h d)"
      by (simp add: update_layer_frame_holds)
    note fna = folder_step_no_assert[OF kids, of indent ?s0]
    from a fna obtain output1 s4 where
      fs: "folder_step h folder indent ?s0 = Inr (output1, s4)"
      unfolding update_layer_unfold by (auto split: sum.splits)
    note lna = layer_step_no_assert[of h layer indent "y_position s" output1 s4]
    from a fs lna obtain outp s6 where
      ls: "layer_step h layer indent (y_position s) output1 s4 = Inr (outp, s6)"
      unfolding update_layer_unfold by (auto split: sum.splits)
    from a fs ls have st: "store_layer_node outp nxt indent (y_position s) lid s6 = Inl AssertionError"
      unfolding update_layer_unfold by simp
    then obtain out where o: "outp = Some out" "out \<notin> fst ` set (new_nodes s6)"
      by (auto simp: store_layer_node_def split: option.splits if_splits)
    note f = folder_step_frame[OF fs fkids]
    have o1: "\<forall>out. output1 = Some out \<longrightarrow> out \<in> fst ` set (new_nodes s4)"
      using f(5) by blast
    note l = layer_step_frame[OF ls o1]
    from l(5)[OF o(1)] o(2) show False by simp
  qed
qed

lemma update_layer_no_assert: "update_layer h d indent lid nxt s \<noteq> Inl AssertionError"
  using update_layer_no_assert_holds[of h d] by (simp add: no_assert_def)

lemma refs_within_mono: "refs_within K nn \<Longrightarrow> K \<subseteq> K' \<Longrightarrow> refs_within K' nn"
  unfolding refs_within_def by blast

lemma node_refs_layer_node:
  "node_refs (layer_node outp nxt indent y) \<subseteq> set_option outp \<union> set_option nxt"
  by (auto simp: node_refs_def layer_node_def node_to_input_def split: option.splits if_splits)

lemma update_folder_layers_refs:
  assumes "update_folder_layers h ids indent index ls s = Inr s'"
    and "\<forall>d\<in>set ls. refs_hold h d"
    and "index + length ls = length ids"
    and "refs_within (fst ` set (new_nodes s) \<union> P \<union> set (drop index ids)) (new_nodes s)"
  shows "refs_within (fst ` set (new_nodes s') \<union> P) (new_nodes s')"
  using assms
proof (induction ls arbitrary: index s)
  case Nil
  then show ?case by simp
next
  case (Cons d rest)
  let ?nxt = "if index + 1 < length ids then Some (ids ! (index + 1)) else None"
  from Cons.prems(1) obtain s1 where
    i: "index < length ids" and
    c: "update_layer h d (indent + 5) (ids ! index) ?nxt s = Inr s1" and
    r: "update_folder_layers h ids indent (index + 1) rest s1 = Inr s'"
    by (rule update_folder_layers_Cons)
  have dr: "drop index ids = ids ! index # drop (index + 1) ids"
    using i by (simp add: Cons_nth_drop_Suc)
  have key: "ids ! index \<in> fst ` set (new_nodes s1)"
    by (rule layer_frame_key[OF update_layer_frame[OF c]])
  have nx: "x \<in> fst ` set (new_nodes s) \<union> (P \<union> set (drop index ids))" if "?nxt = Some x" for x
  proof -
    from that have l: "index + 1 < length ids" and x: "x = ids ! (index + 1)"
      by (auto split: if_splits)
    have "drop (index + 1) ids = ids ! (index + 1) # drop (Suc (index + 1)) ids"
      using l by (simp add: Cons_nth_drop_Suc)
    with dr x have "x \<in> set (drop index ids)" by simp
    then show ?thesis by simp
  qed
  have A: "refs_within (fst ` set (new_nodes s) \<union> (P \<union> set (drop index ids))) (new_nodes s)"
    using Cons.prems(4) by (simp add: Un_assoc)
  have rh: "refs_hold h d" using Cons.prems(2) by simp
  have "refs_within (fst ` set (new_nodes s1) \<union> (P \<union> set (drop index ids))) (new_nodes s1)"
    by (rule rh[unfolded refs_hold_def, rule_format, OF c A]) (rule nx)
  then have "refs_within (fst ` set (new_nodes s1) \<union> P \<union> set (drop (index + 1) ids)) (new_nodes s1)"
    by (rule refs_within_mono) (use dr key in auto)
  then show ?case
    by (rule Cons.IH[OF r, rotated 2]) (use Cons.prems(2,3) in simp_all)
qed

lemma folder_step_refs:
  assumes fs: "folder_step h folder indent s1 = Inr (output1, s4)"
    and kids: "\<forall>layers. folder = Some layers \<longrightarrow> (\<forall>d\<in>set layers. refs_hold h d)"
    and old: "refs_within (fst ` set (new_nodes s1) \<union> P) (new_nodes s1)"
  shows "refs_within (fst ` set (new_nodes s4) \<union> P) (new_nodes s4)"
  using fs
proof (cases rule: folder_step_Inr)
  case 1
  with old show ?thesis by simp
next
  case (2 layers)
  let ?ids = "map (\<lambda>i. new_id s1 + int i) [0..<length layers]"
  let ?s2 = "s1\<lparr>new_id := new_id s1 + int (length layers) + 1\<rparr>"
  show ?thesis
  proof (rule update_folder_layers_refs[OF 2(4)])
    show "\<forall>d\<in>set (rev layers). refs_hold h d" using kids 2(1) by simp
    show "0 + length (rev layers) = length ?ids" by simp
    show "refs_within (fst ` set (new_nodes ?s2) \<union> P \<union> set (drop 0 ?ids)) (new_nodes ?s2)"
      using refs_within_mono[OF old, of "fst ` set (new_nodes s1) \<union> P \<union> set ?ids"] by simp
  qed
qed

lemma layer_step_refs:
  assumes ls: "layer_step h layer indent y output1 s4 = Inr (outp, s6)"
    and o1: "\<forall>out. output1 = Some out \<longrightarrow> out \<in> fst ` set (new_nodes s4)"
    and old: "refs_within (fst ` set (new_nodes s4) \<union> P) (new_nodes s4)"
  shows "refs_within (fst ` set (new_nodes s6) \<union> P) (new_nodes s6)"
  using ls
proof (cases rule: layer_step_Inr)
  case 1
  with old show ?thesis by simp
next
  case (2 network out)
  note f = update_network_frame[OF 2(3)]
  have old': "refs_within (fst ` set (new_nodes s6) \<union> P) (new_nodes s4)"
    by (rule refs_within_mono[OF old]) (use f(5) in auto)
  show ?thesis
    unfolding refs_within_def
  proof (intro allI impI)
    fix j m assume m: "map_of (new_nodes s6) j = Some m"
    show "node_refs m \<subseteq> fst ` set (new_nodes s6) \<union> P"
    proof (rule update_network_refs[OF 2(3) _ _ m])
      show "\<And>j m. map_of (new_nodes s4) j = Some m \<Longrightarrow> node_refs m \<subseteq> fst ` set (new_nodes s6) \<union> P"
        using old' unfolding refs_within_def by blast
      show "fst ` set (new_nodes s6) \<subseteq> fst ` set (new_nodes s6) \<union> P" by simp
    qed
  qed
qed

lemma update_layer_refs_hold: "refs_hold h d"
proof (induction d)
  case (Data folder layer)
  show ?case
    unfolding refs_hold_def
  proof (intro allI impI)
    fix indent lid nxt s s' P
    assume run: "update_layer h (Data folder layer) indent lid nxt s = Inr s'"
      and old: "refs_within (fst ` set (new_nodes s) \<union> P) (new_nodes s)"
      and nx: "\<forall>x. nxt = Some x \<longrightarrow> x \<in> fst ` set (new_nodes s) \<union> P"
    let ?s0 = "s\<lparr>y_position := y_position s + 3\<rparr>"
    from run obtain output1 s4 outp s6 where
      fs: "folder_step h folder indent ?s0 = Inr (output1, s4)" and
      ls: "layer_step h layer indent (y_position s) output1 s4 = Inr (outp, s6)" and
      st: "store_layer_node outp nxt indent (y_position s) lid s6 = Inr s'"
      by (rule update_layer_Inr)
    have kids: "\<forall>layers. folder = Some layers \<longrightarrow> (\<forall>d\<in>set layers. refs_hold h d)"
      using Data.IH by auto
    have fkids: "\<forall>layers. folder = Some layers \<longrightarrow> (\<forall>d\<in>set layers. frame_holds h d)"
      by (simp add: update_layer_frame_holds)
    note f = folder_step_frame[OF fs fkids]
    have o1: "\<forall>out. output1 = Some out \<longrightarrow> out \<in> fst ` set (new_nodes s4)"
      using f(5) by blast
    note l = layer_step_frame[OF ls o1]
    note e = store_layer_node_Inr[OF st]
    have r0: "refs_within (fst ` set (new_nodes ?s0) \<union> P) (new_nodes ?s0)" using old by simp
    have r4: "refs_within (fst ` set (new_nodes s4) \<union> P) (new_nodes s4)"
      by (rule folder_step_refs[OF fs kids r0])
    have r6: "refs_within (fst ` set (new_nodes s6) \<union> P) (new_nodes s6)"
      by (rule layer_step_refs[OF ls o1 r4])
    have k6: "fst ` set (new_nodes s') = insert lid (fst ` set (new_nodes s6))"
      using e(1) by (simp add: dom_update)
    have k0: "fst ` set (new_nodes s) \<subseteq> fst ` set (new_nodes s6)"
      using f(3) l(3) by auto
    have w: "node_refs (layer_node outp nxt indent (y_position s)) \<subseteq> fst ` set (new_nodes s') \<union> P"
    proof -
      have "set_option outp \<subseteq> fst ` set (new_nodes s6)" using e(2) by (cases outp) auto
      moreover have "set_option nxt \<subseteq> fst ` set (new_nodes s6) \<union> P"
        using nx k0 by (cases nxt) auto
      ultimately show ?thesis using node_refs_layer_node[of outp nxt indent "y_position s"] k6 by blast
    qed
    show "refs_within (fst ` set (new_nodes s') \<union> P) (new_nodes s')"
      unfolding refs_within_def
    proof (intro allI impI)
      fix j m assume m: "map_of (new_nodes s') j = Some m"
      show "node_refs m \<subseteq> fst ` set (new_nodes s') \<union> P"
      proof (cases "j = lid")
        case True
        with m e(1) have "m = layer_node outp nxt indent (y_position s)" by (simp add: update_conv')
        with w show ?thesis by simp
      next
        case False
        with m e(1) have "map_of (new_nodes s6) j = Some m" by (simp add: update_conv')
        with r6 have "node_refs m \<subseteq> fst ` set (new_nodes s6) \<union> P"
          unfolding refs_within_def by blast
        with k6 show ?thesis by blast
      qed
    qed
  qed
qed

section \<open>Results about one Layer network\<close>

lemma zip_new_id_fst: "fst (zip_new_id ks s) = new_ids_of ks (new_id s)"
  by (simp add: zip_new_id_eq new_ids_of_def)

lemma update_network_node:
  assumes run: "update_network h network indent y s = Inr (out, s')"
    and out: "outputs network = out_id # rest" "map_of (nodes network) out_id = Some output_node"
    and i: "i < length (node_set h network)"
    and n: "map_of (nodes network) (node_set h network ! i) = Some n"
  obtains ins where
    "renumber_inputs (fst (zip_new_id (node_set h network) s)) (inputs n) = Inr ins"
    "map_of (new_nodes s') (new_id s + int i) =
       Some (plain_result ins (fst (position output_node)) indent y n)"
  | ins shape where
    "renumber_inputs (fst (zip_new_id (node_set h network) s)) (inputs n) = Inr ins"
    "name n = ''Shape''"
    "new_id s + int (length (node_set h network)) \<le> shape" "shape < new_id s'"
    "map_of (new_nodes s') (new_id s + int i) =
       Some (cull_result shape (fst (position output_node)) indent y n)"
    "map_of (new_nodes s') shape = Some (dup_result ins (fst (position output_node)) indent y n)"
proof -
  let ?ns = "node_set h network"
  have k: "?ns ! i \<in> set ?ns" using i by simp
  have nid: "map_of (new_ids_of ?ns (new_id s)) (?ns ! i) = Some (new_id s + int i)"
    by (rule new_ids_of_nth[OF node_set_distinct i])
  from update_network_emitted[OF run out k] obtain net' where
    "emitted (nodes network) (new_ids_of ?ns (new_id s)) (fst (position output_node)) indent y
       (new_id s + int (length ?ns)) (new_id s') (new_nodes s') net' (?ns ! i)" by blast
  then show ?thesis
  proof (cases rule: emitted_cases)
    case (1 n' ins nid')
    with n nid that(1)[of ins] show ?thesis by (simp add: zip_new_id_fst)
  next
    case (2 n' ins nid' shape)
    with n nid that(2)[of ins shape] show ?thesis by (simp add: zip_new_id_fst)
  qed
qed

lemma plain_result_position [simp]:
  "position (plain_result ins sl indent y n) = (fst (position n) - (sl + indent), y)"
  by (simp add: plain_result_def fix_transform_def)

lemma cull_result_position [simp]:
  "position (cull_result shape sl indent y n) = (fst (position n) - (sl + indent), y)"
  by (simp add: cull_result_def)

lemma dup_result_position [simp]:
  "position (dup_result ins sl indent y n) = (fst (position n) - (sl + 8 + indent), y)"
  by (simp add: dup_result_def)

lemma update_network_loop:
  assumes run: "update_network h network indent y s = Inr (out, s')"
    and out: "outputs network = out_id # rest" "map_of (nodes network) out_id = Some output_node"
  obtains net' where
    "update_nodes (node_set h network) (new_ids_of (node_set h network) (new_id s))
       (fst (position output_node)) indent y (node_set h network)
       (nodes network, s\<lparr>new_id := new_id s + int (length (node_set h network))\<rparr>) = Inr (net', s')"
    "\<forall>k\<in>set (node_set h network).
       emitted (nodes network) (new_ids_of (node_set h network) (new_id s))
         (fst (position output_node)) indent y
         (new_id s + int (length (node_set h network))) (new_id s') (new_nodes s') net' k"
proof -
  let ?ns = "node_set h network"
  let ?ids = "new_ids_of ?ns (new_id s)"
  let ?s1 = "s\<lparr>new_id := new_id s + int (length ?ns)\<rparr>"
  from run out obtain net' where
    u: "update_nodes ?ns ?ids (fst (position output_node)) indent y ?ns (nodes network, ?s1) = Inr (net', s')"
    by (auto elim!: update_network_Inr)
  have below: "\<forall>t\<in>set ?ns. \<forall>v. map_of ?ids t = Some v \<longrightarrow> v < new_id ?s1"
    using new_ids_of_Some[of ?ns "new_id s"] by fastforce
  have "emitted (nodes network) ?ids (fst (position output_node)) indent y
         (new_id s + int (length ?ns)) (new_id s') (new_nodes s') net' k" if "k \<in> set ?ns" for k
    using update_nodes_emitted[OF u node_set_distinct new_ids_of_inj[OF node_set_distinct] below that]
    by simp
  then have "\<forall>k\<in>set ?ns. emitted (nodes network) ?ids (fst (position output_node)) indent y
         (new_id s + int (length ?ns)) (new_id s') (new_nodes s') net' k" by blast
  with u show ?thesis by (rule that)
qed

lemma node_set_index:
  assumes "map_of (nodes network) k = Some n" "name n \<noteq> ''Output''"
  obtains i where "i < length (node_set h network)" "node_set h network ! i = k"
  using assms node_set_iff[of k h network] by (auto simp: in_set_conv_nth)

lemma plain_result_not_transform:
  "name n \<noteq> ''Transform'' \<Longrightarrow>
     plain_result ins sl indent y n = n\<lparr>inputs := ins, position := (fst (position n) - (sl + indent), y)\<rparr>"
  by (simp add: plain_result_def fix_transform_def)


lemma shape_without_cull:
  assumes run: "update_network h network indent y s = Inr (out, s')"
    and out: "outputs network = out_id # rest" "map_of (nodes network) out_id = Some output_node"
    and i: "i < length (node_set h network)"
    and n: "map_of (nodes network) (node_set h network ! i) = Some n" "name n = ''Shape''"
    and nocull: "\<forall>k m. map_of (nodes network) k = Some m \<longrightarrow> name m \<noteq> ''Cull''"
    and one: "\<forall>k m. map_of (nodes network) k = Some m \<longrightarrow> name m = ''Shape'' \<longrightarrow>
                k = node_set h network ! i"
  shows "new_id s' = new_id s + int (length (node_set h network)) + 1 \<and>
    (\<exists>ins. renumber_inputs (fst (zip_new_id (node_set h network) s)) (inputs n) = Inr ins \<and>
       map_of (new_nodes s') (new_id s + int i) =
         Some (cull_result (new_id s + int (length (node_set h network)))
                 (fst (position output_node)) indent y n) \<and>
       map_of (new_nodes s') (new_id s + int (length (node_set h network))) =
         Some (dup_result ins (fst (position output_node)) indent y n))"
proof -
  let ?ns = "node_set h network"
  let ?ids = "new_ids_of ?ns (new_id s)"
  let ?s1 = "s\<lparr>new_id := new_id s + int (length ?ns)\<rparr>"
  let ?k = "?ns ! i"
  from run out obtain net' where
    u: "update_nodes ?ns ?ids (fst (position output_node)) indent y ?ns (nodes network, ?s1) = Inr (net', s')"
    and em': "\<forall>k\<in>set ?ns.
       emitted (nodes network) ?ids (fst (position output_node)) indent y
         (new_id s + int (length ?ns)) (new_id s') (new_nodes s') net' k"
    by (rule update_network_loop)
  note em = em'[rule_format]
  have k: "?k \<in> set ?ns" using i by simp
  have nid: "map_of ?ids ?k = Some (new_id s + int i)"
    by (rule new_ids_of_nth[OF node_set_distinct i])
  have nc: "\<not> any_cull ?ns (nodes network)"
    using nocull by (auto simp: any_cull_iff name_of_def)
  have ex: "\<exists>k\<in>set ?ns. name_of (nodes network) k = Some ''Shape''"
    using k n by (auto simp: name_of_def)
  from update_nodes_some_cull[OF u nc subset_refl ex]
  have c1: "new_id s' = new_id s + int (length ?ns) + 1"
    and "\<exists>k\<in>set ?ns. name_of (nodes network) k = Some ''Shape'' \<and> name_of net' k = Some ''Cull''"
    by simp_all
  then obtain k' where "name_of (nodes network) k' = Some ''Shape''" "name_of net' k' = Some ''Cull''"
    by blast
  with one have renamed: "name_of net' ?k = Some ''Cull''"
    by (auto simp: name_of_def)
  from em[OF k] have "\<exists>ins. renumber_inputs ?ids (inputs n) = Inr ins \<and>
       map_of (new_nodes s') (new_id s + int i) =
         Some (cull_result (new_id s + int (length ?ns)) (fst (position output_node)) indent y n) \<and>
       map_of (new_nodes s') (new_id s + int (length ?ns)) =
         Some (dup_result ins (fst (position output_node)) indent y n)"
  proof (cases rule: emitted_cases)
    case (1 n' ins nid')
    with n renamed show ?thesis by (simp add: name_of_def)
  next
    case (2 n' ins nid' shape)
    from 2(5,6) c1 have "shape = new_id s + int (length ?ns)" by simp
    with 2 n nid show ?thesis by auto
  qed
  with c1 show ?thesis by (simp add: zip_new_id_fst)
qed

lemma shape_with_cull:
  assumes run: "update_network h network indent y s = Inr (out, s')"
    and out: "outputs network = out_id # rest" "map_of (nodes network) out_id = Some output_node"
    and i: "i < length (node_set h network)"
    and n: "map_of (nodes network) (node_set h network ! i) = Some n" "name n = ''Shape''"
    and cull: "map_of (nodes network) kc = Some c" "name c = ''Cull''"
  shows "new_id s' = new_id s + int (length (node_set h network)) \<and>
    (\<exists>ins. renumber_inputs (fst (zip_new_id (node_set h network) s)) (inputs n) = Inr ins \<and>
       map_of (new_nodes s') (new_id s + int i) =
         Some (n\<lparr>inputs := ins,
                 position := (fst (position n) - (fst (position output_node) + indent), y)\<rparr>))"
proof -
  let ?ns = "node_set h network"
  let ?ids = "new_ids_of ?ns (new_id s)"
  let ?s1 = "s\<lparr>new_id := new_id s + int (length ?ns)\<rparr>"
  let ?k = "?ns ! i"
  from run out obtain net' where
    u: "update_nodes ?ns ?ids (fst (position output_node)) indent y ?ns (nodes network, ?s1) = Inr (net', s')"
    and em': "\<forall>k\<in>set ?ns.
       emitted (nodes network) ?ids (fst (position output_node)) indent y
         (new_id s + int (length ?ns)) (new_id s') (new_nodes s') net' k"
    by (rule update_network_loop)
  note em = em'[rule_format]
  have k: "?k \<in> set ?ns" using i by simp
  have nid: "map_of ?ids ?k = Some (new_id s + int i)"
    by (rule new_ids_of_nth[OF node_set_distinct i])
  have "kc \<in> set ?ns" using cull by (simp add: node_set_iff)
  then have ac: "any_cull ?ns (nodes network)"
    using cull by (auto simp: any_cull_iff name_of_def)
  from update_nodes_after_cull[OF u ac]
  have c1: "new_id s' = new_id s + int (length ?ns)" and nm: "name_of net' = name_of (nodes network)"
    by simp_all
  have kept: "name_of net' ?k = Some ''Shape''" using nm n by (simp add: name_of_def)
  from em[OF k] have "\<exists>ins. renumber_inputs ?ids (inputs n) = Inr ins \<and>
       map_of (new_nodes s') (new_id s + int i) =
         Some (n\<lparr>inputs := ins,
                 position := (fst (position n) - (fst (position output_node) + indent), y)\<rparr>)"
  proof (cases rule: emitted_cases)
    case (1 n' ins nid')
    with n nid show ?thesis by (auto simp: plain_result_not_transform)
  next
    case (2 n' ins nid' shape)
    with kept show ?thesis by (simp add: name_of_def)
  qed
  with c1 show ?thesis by (simp add: zip_new_id_fst)
qed

lemma update_network_output:
  assumes "update_network h network indent y s = Inr (out, s')"
  obtains out_id rest output_node where
    "outputs network = out_id # rest" "map_of (nodes network) out_id = Some output_node"
  using assms by (elim update_network_Inr) blast

lemma emitted_names:
  assumes "emitted net new_ids sl indent y lo hi nn' net' k" "map_of new_ids k = Some nid"
  shows "name_of net' k = map_option name (map_of nn' nid)"
  using assms(1)
  by (cases rule: emitted_cases) (use assms(2) in \<open>simp_all add: name_of_def\<close>)

lemma at_most_one_cull:
  assumes run: "update_network h network indent y s = Inr (out, s')"
    and i: "i < length (node_set h network)" and j: "j < length (node_set h network)"
    and ci: "map_option name (map_of (nodes network) (node_set h network ! i)) = Some ''Shape''"
            "map_option name (map_of (new_nodes s') (new_id s + int i)) = Some ''Cull''"
    and cj: "map_option name (map_of (nodes network) (node_set h network ! j)) = Some ''Shape''"
            "map_option name (map_of (new_nodes s') (new_id s + int j)) = Some ''Cull''"
  shows "i = j"
proof -
  let ?ns = "node_set h network"
  let ?ids = "new_ids_of ?ns (new_id s)"
  let ?s1 = "s\<lparr>new_id := new_id s + int (length ?ns)\<rparr>"
  from run obtain out_id rest and output_node :: node where
    out: "outputs network = out_id # rest" "map_of (nodes network) out_id = Some output_node"
    by (rule update_network_output)
  from run out obtain net' where
    u: "update_nodes ?ns ?ids (fst (position output_node)) indent y ?ns (nodes network, ?s1) = Inr (net', s')"
    and em': "\<forall>k\<in>set ?ns.
       emitted (nodes network) ?ids (fst (position output_node)) indent y
         (new_id s + int (length ?ns)) (new_id s') (new_nodes s') net' k"
    by (rule update_network_loop)
  note em = em'[rule_format]
  have nm: "name_of net' (?ns ! a) = map_option name (map_of (new_nodes s') (new_id s + int a))"
    if "a < length ?ns" for a
    by (rule emitted_names[OF em new_ids_of_nth[OF node_set_distinct that]]) (use that in simp)
  from update_nodes_one_cull[OF u subset_refl]
  have one: "name_of net' a = Some ''Cull'' \<Longrightarrow> name_of (nodes network) a \<noteq> Some ''Cull'' \<Longrightarrow>
      name_of net' b = Some ''Cull'' \<Longrightarrow> name_of (nodes network) b \<noteq> Some ''Cull'' \<Longrightarrow> a = b" for a b
    by blast
  have "?ns ! i = ?ns ! j"
  proof (rule one)
    show "name_of net' (?ns ! i) = Some ''Cull''" using nm[OF i] ci(2) by simp
    show "name_of net' (?ns ! j) = Some ''Cull''" using nm[OF j] cj(2) by simp
    show "name_of (nodes network) (?ns ! i) \<noteq> Some ''Cull''" using ci(1) by (auto simp: name_of_def)
    show "name_of (nodes network) (?ns ! j) \<noteq> Some ''Cull''" using cj(1) by (auto simp: name_of_def)
  qed
  then show ?thesis using i j by (simp add: nth_eq_iff_index_eq)
qed

lemma exactly_one_cull:
  assumes run: "update_network h network indent y s = Inr (out, s')"
    and nocull: "\<forall>k m. map_of (nodes network) k = Some m \<longrightarrow> name m \<noteq> ''Cull''"
    and shape: "map_of (nodes network) k = Some n" "name n = ''Shape''"
  shows "new_id s' = new_id s + int (length (node_set h network)) + 1"
proof -
  let ?ns = "node_set h network"
  let ?ids = "new_ids_of ?ns (new_id s)"
  let ?s1 = "s\<lparr>new_id := new_id s + int (length ?ns)\<rparr>"
  from run obtain out_id rest and output_node :: node where
    out: "outputs network = out_id # rest" "map_of (nodes network) out_id = Some output_node"
    by (rule update_network_output)
  from run out obtain net' where
    u: "update_nodes ?ns ?ids (fst (position output_node)) indent y ?ns (nodes network, ?s1) = Inr (net', s')"
    by (rule update_network_loop)
  have nc: "\<not> any_cull ?ns (nodes network)"
    using nocull by (auto simp: any_cull_iff name_of_def)
  have "k \<in> set ?ns" using shape by (simp add: node_set_iff)
  then have ex: "\<exists>k\<in>set ?ns. name_of (nodes network) k = Some ''Shape''"
    using shape by (auto simp: name_of_def)
  from update_nodes_some_cull[OF u nc subset_refl ex] show ?thesis by simp
qed

section \<open>Example runs\<close>

lemma nodes_a:
  "nodes network_a =
     [(0, example_node ''Output'' [Node 3 0 False] 200 0),
      (1, example_node ''Shape'' [Value (JStr ''path'') False] 50 1),
      (2, example_node ''Transform'' [Node 1 0 False, Value (JInt 0) False] 75 2),
      (3, example_node ''Fill'' [Node 2 0 False] 100 3)]"
  and outputs_a: "outputs network_a = [0]"
  by (simp_all add: network_a_def)

lemma node_set_a: "node_set id network_a = [1, 2, 3]"
  by (simp add: node_set_def nodes_a set_iter_def not_output_def example_node_def)

lemma run_a: "update_network id network_a 0 10 state_a = Inr (46, final_a)"
  by (simp add: update_network_def node_set_a nodes_a outputs_a next_new_id_def Let_def
      update_node_def any_cull_def insert_cull_def final_a_def state_a_def example_node_def)

lemma nodes_b:
  "nodes network_b =
     [(0, example_node ''Output'' [Node 3 0 False] 200 0),
      (1, example_node ''Shape'' [] 50 1),
      (2, example_node ''Shape'' [] 60 2),
      (3, example_node ''Merge'' [Node 1 0 False, Node 2 0 False] 100 3)]"
  and outputs_b: "outputs network_b = [0]"
  by (simp_all add: network_b_def)

lemma node_set_b: "node_set id network_b = [1, 2, 3]"
  by (simp add: node_set_def nodes_b set_iter_def not_output_def example_node_def)

lemma run_b: "update_network id network_b 0 10 state_a = Inr (46, final_b)"
  by (simp add: update_network_def node_set_b nodes_b outputs_b next_new_id_def Let_def
      update_node_def any_cull_def insert_cull_def final_b_def state_a_def example_node_def)

lemma nodes_c:
  "nodes network_c =
     [(0, example_node ''Output'' [Node 2 0 False] 200 0),
      (1, example_node ''Shape'' [Node 3 0 False] 50 1),
      (2, example_node ''Cull'' [Node 1 0 False] 100 2),
      (3, example_node ''Path'' [] 0 3)]"
  and outputs_c: "outputs network_c = [0]"
  by (simp_all add: network_c_def)

lemma node_set_c: "node_set id network_c = [1, 2, 3]"
  by (simp add: node_set_def nodes_c set_iter_def not_output_def example_node_def)

lemma run_c: "update_network id network_c 0 10 state_a = Inr (45, final_c)"
  by (simp add: update_network_def node_set_c nodes_c outputs_c next_new_id_def Let_def
      update_node_def any_cull_def insert_cull_def final_c_def state_a_def example_node_def)

lemma run_a_layer:
  "update_network id network_a 5 13
     \<lparr>new_id = 46, y_position = 16, new_nodes = [(43, layer_node None (Some 44) 5 10)]\<rparr> =
   Inr (48, \<lparr>new_id = 50, y_position = 16, new_nodes = take 5 nodes_b_out\<rparr>)"
  by (simp add: update_network_def node_set_a nodes_a outputs_a next_new_id_def Let_def
      update_node_def any_cull_def insert_cull_def nodes_b_out_def example_node_def)

lemma migrate_unfold:
  "migrate h root_data s0 =
     (case update_layer h root_data 0 42 None \<lparr>new_id = 43, y_position = 7, new_nodes = []\<rparr> of
        Inl e \<Rightarrow> Inl e
      | Inr s2 \<Rightarrow>
          Inr (\<lparr>document_network_outputs = [(0, 0)],
                 document_network_nodes = AList.update 0 root_output_node (new_nodes s2)\<rparr>,
               s2\<lparr>new_nodes := AList.update 0 root_output_node (new_nodes s2)\<rparr>))"
  by (cases s0) (simp add: migrate_def gen_id_def gen_y_def next_new_id_def Let_def split: sum.splits)

lemma run_root_b:
  "migrate id root_b s0 =
     Inr (\<lparr>document_network_outputs = [(0, 0)], document_network_nodes = nodes_b_out\<rparr>,
          \<lparr>new_id = 50, y_position = 16, new_nodes = nodes_b_out\<rparr>)"
  by (simp add: migrate_unfold root_b_def next_new_id_def next_y_position_def
      update_layer.simps Let_def run_a_layer store_layer_node_def nodes_b_out_def)

lemma migrate_Inr:
  assumes "migrate h root_data s0 = Inr (doc, s1)"
  obtains s2 where
    "update_layer h root_data 0 42 None \<lparr>new_id = 43, y_position = 7, new_nodes = []\<rparr> = Inr s2"
    "document_network_nodes doc = AList.update 0 root_output_node (new_nodes s2)"
    "s1 = s2\<lparr>new_nodes := AList.update 0 root_output_node (new_nodes s2)\<rparr>"
  using assms unfolding migrate_unfold by (auto split: sum.splits)

lemma node_refs_root_output_node: "node_refs root_output_node = {42}"
  by (auto simp: node_refs_def root_output_node_def)

lemma migrate_refs:
  assumes "migrate h root_data s0 = Inr (doc, s1)"
  shows "refs_within (fst ` set (document_network_nodes doc)) (document_network_nodes doc)"
proof -
  let ?s = "\<lparr>new_id = 43, y_position = 7, new_nodes = []\<rparr>"
  from assms obtain s2 where
    u: "update_layer h root_data 0 42 None ?s = Inr s2" and
    d: "document_network_nodes doc = AList.update 0 root_output_node (new_nodes s2)"
    by (rule migrate_Inr)
  have r0: "refs_within (fst ` set (new_nodes ?s) \<union> {}) (new_nodes ?s)"
    by (simp add: refs_within_def)
  have n0: "\<forall>x. (None :: int option) = Some x \<longrightarrow> x \<in> fst ` set (new_nodes ?s) \<union> {}"
    by simp
  have "refs_within (fst ` set (new_nodes s2) \<union> {}) (new_nodes s2)"
    using update_layer_refs_hold[of h root_data] u r0 n0 unfolding refs_hold_def by blast
  then have r2: "refs_within (fst ` set (new_nodes s2)) (new_nodes s2)" by simp
  have k: "42 \<in> fst ` set (new_nodes s2)"
    by (rule layer_frame_key[OF update_layer_frame[OF u]])
  have keys: "fst ` set (document_network_nodes doc) = insert 0 (fst ` set (new_nodes s2))"
    using d by (simp add: dom_update)
  show ?thesis
    unfolding refs_within_def
  proof (intro allI impI)
    fix j m assume m: "map_of (document_network_nodes doc) j = Some m"
    show "node_refs m \<subseteq> fst ` set (document_network_nodes doc)"
    proof (cases "j = 0")
      case True
      with m d have "m = root_output_node" by (simp add: update_conv')
      with k keys show ?thesis by (simp add: node_refs_root_output_node)
    next
      case False
      with m d have "map_of (new_nodes s2) j = Some m" by (simp add: update_conv')
      with r2 have "node_refs m \<subseteq> fst ` set (new_nodes s2)" unfolding refs_within_def by blast
      with keys show ?thesis by blast
    qed
  qed
qed






lemma layer_node_name [simp]: "name (layer_node outp nxt indent y) = ''Layer''"
  and layer_node_position [simp]: "position (layer_node outp nxt indent y) = (- indent, y)"
  by (simp_all add: layer_node_def)



lemma run_layer_b:
  "update_layer id root_b 0 42 None \<lparr>new_id = 43, y_position = 7, new_nodes = []\<rparr> =
     Inr \<lparr>new_id = 50, y_position = 16, new_nodes = take 7 nodes_b_out\<rparr>"
  by (simp add: root_b_def next_new_id_def next_y_position_def
      update_layer.simps Let_def run_a_layer store_layer_node_def nodes_b_out_def)


lemma update_folder_layers_step:
  assumes "update_folder_layers h ids indent index (d # rest) s = Inr s'"
  obtains s1 where "index < length ids"
    "update_layer h d (indent + 5) (ids ! index) (next_index ids index) s = Inr s1"
    "update_folder_layers h ids indent (Suc index) rest s1 = Inr s'"
  using assms unfolding next_index_def by (auto simp: Let_def split: if_splits sum.splits)

lemma update_folder_layers_calls:
  assumes "update_folder_layers h ids indent index ls s = Inr s'"
  shows "\<exists>sts. length sts = Suc (length ls) \<and> sts ! 0 = s \<and> sts ! length ls = s' \<and>
    (\<forall>i<length ls. index + i < length ids \<and>
       update_layer h (ls ! i) (indent + 5) (ids ! (index + i)) (next_index ids (index + i)) (sts ! i) =
       Inr (sts ! Suc i))"
  using assms
proof (induction ls arbitrary: index s)
  case Nil
  then have "s' = s" by simp
  then show ?case by (intro exI[of _ "[s]"]) simp
next
  case (Cons d rest)
  from Cons.prems obtain s1 where
    i: "index < length ids" and
    c: "update_layer h d (indent + 5) (ids ! index) (next_index ids index) s = Inr s1" and
    r: "update_folder_layers h ids indent (Suc index) rest s1 = Inr s'"
    by (rule update_folder_layers_step)
  from Cons.IH[OF r] obtain sts where
    l: "length sts = Suc (length rest)" and z: "sts ! 0 = s1" and e: "sts ! length rest = s'" and
    st: "\<forall>i<length rest. Suc index + i < length ids \<and>
       update_layer h (rest ! i) (indent + 5) (ids ! (Suc index + i)) (next_index ids (Suc index + i))
         (sts ! i) = Inr (sts ! Suc i)"
    by blast
  have "\<forall>i<length (d # rest). index + i < length ids \<and>
       update_layer h ((d # rest) ! i) (indent + 5) (ids ! (index + i)) (next_index ids (index + i))
         ((s # sts) ! i) = Inr ((s # sts) ! Suc i)"
  proof (intro allI impI)
    fix i assume il: "i < length (d # rest)"
    show "index + i < length ids \<and>
       update_layer h ((d # rest) ! i) (indent + 5) (ids ! (index + i)) (next_index ids (index + i))
         ((s # sts) ! i) = Inr ((s # sts) ! Suc i)"
    proof (cases i)
      case 0
      with i c z show ?thesis by simp
    next
      case (Suc j)
      with il have j: "j < length rest" by simp
      from st[rule_format, OF j] Suc show ?thesis by simp
    qed
  qed
  moreover have "length (s # sts) = Suc (length (d # rest))" using l by simp
  moreover have "(s # sts) ! 0 = s" by simp
  moreover have "(s # sts) ! length (d # rest) = s'" using e by simp
  ultimately show ?case by blast
qed

section \<open>Claims about the build patcher and the reset of the generators\<close>

lemma update_fresh_key: "k \<notin> fst ` set al \<Longrightarrow> AList.update k v al = al @ [(k, v)]"
  by (induction al) auto

text \<open>
  Claim C10. If the manifest has a \<^verbatim>\<open>"dependencies"\<close> key, \<^verbatim>\<open>patch_json\<close> leaves the
  manifest as it is; otherwise it adds the one entry \<^verbatim>\<open>graphite-frontend\<close> under a new
  \<^verbatim>\<open>"dependencies"\<close> key at the end; applying it twice gives the same manifest as
  applying it once.
\<close>

theorem patch_json_idempotent:
  "patch_json (patch_json manifest) = patch_json manifest \<and>
   patch_json manifest =
     (if ''dependencies'' \<in> fst ` set manifest then manifest
      else manifest @
        [(''dependencies'', JObj [(''graphite-frontend'', JStr ''file:../../frontend'')])])"
proof -
  have "''dependencies'' \<in> fst ` set (patch_json manifest)"
    by (simp add: patch_json_def dom_update)
  then have "patch_json (patch_json manifest) = patch_json manifest"
    by (simp add: patch_json_def [of "patch_json manifest"])
  moreover have "patch_json manifest =
     (if ''dependencies'' \<in> fst ` set manifest then manifest
      else manifest @
        [(''dependencies'', JObj [(''graphite-frontend'', JStr ''file:../../frontend'')])])"
    by (simp add: patch_json_def update_fresh_key)
  ultimately show ?thesis by simp
qed

text \<open>
  Claim C6. \<^verbatim>\<open>migrate\<close> reassigns the id generator, the Y generator and the node
  accumulator before it does anything else, so what it writes and the state it leaves
  are the same whatever state the module was in before: a second run on the same input
  (in the same process, hence with the same set iteration order \<open>h\<close>) produces the
  same document as the first.
\<close>

theorem migrate_independent_of_previous_state:
  "migrate h root_data s = migrate h root_data s'"
proof -
  have "s\<lparr>new_id := gen_id, y_position := gen_y, new_nodes := []\<rparr> =
        s'\<lparr>new_id := gen_id, y_position := gen_y, new_nodes := []\<rparr>"
    by (cases s, cases s') simp
  then show ?thesis unfolding migrate_def by (simp only:)
qed

section \<open>Claims about the Layer branch and the traversal\<close>

text \<open>
  Claim C3 (amended). The horizontal shift of a Layer network is the X position of the
  node that the network's first declared output names, that is of the output node
  itself and not of the node that feeds it: every node of the network is stored under
  its new id at its original X minus that position minus the indentation, with the Y
  drawn for the call.
\<close>

theorem shift_is_x_of_output_node:
  assumes "update_network h network indent y s = Inr (out, s')"
    and "outputs network = out_id # rest"
    and "map_of (nodes network) out_id = Some output_node"
    and "i < length (node_set h network)"
    and "map_of (nodes network) (node_set h network ! i) = Some n"
  shows "map_option position (map_of (new_nodes s') (new_id s + int i)) =
    Some (fst (position n) - (fst (position output_node) + indent), y)"
  using assms(1-5) by (rule update_network_node) simp_all

theorem shift_is_x_of_output_node_witness:
  "update_network id network_a 0 10 state_a = Inr (46, final_a) \<and>
   outputs network_a = 0 # [] \<and>
   map_of (nodes network_a) 0 = Some (example_node ''Output'' [Node 3 0 False] 200 0) \<and>
   2 < length (node_set id network_a) \<and>
   map_of (nodes network_a) (node_set id network_a ! 2) =
     Some (example_node ''Fill'' [Node 2 0 False] 100 3) \<and>
   map_option position (map_of (new_nodes final_a) (new_id state_a + int 2)) =
     Some (fst (position (example_node ''Fill'' [Node 2 0 False] 100 3)) -
           (fst (position (example_node ''Output'' [Node 3 0 False] 200 0)) + 0), 10)"
proof -
  have h2: "outputs network_a = 0 # []" by (simp add: outputs_a)
  have h3: "map_of (nodes network_a) 0 = Some (example_node ''Output'' [Node 3 0 False] 200 0)"
    by (simp add: nodes_a)
  have h4: "2 < length (node_set id network_a)" by (simp add: node_set_a)
  have h5: "map_of (nodes network_a) (node_set id network_a ! 2) =
     Some (example_node ''Fill'' [Node 2 0 False] 100 3)"
    by (simp add: node_set_a nodes_a)
  from run_a h2 h3 h4 h5 shift_is_x_of_output_node [OF run_a h2 h3 h4 h5]
  show ?thesis by (intro conjI)
qed

theorem shift_claim_counterexample:
  "update_network id network_a 0 10 state_a = Inr (46, final_a) \<and>
   map_option inputs (map_of (nodes network_a) 0) = Some [Node 3 0 False] \<and>
   map_option position (map_of (nodes network_a) 3) = Some (100, 3) \<and>
   map_option position (map_of (new_nodes final_a) 46) = Some (- 100, 10) \<and>
   (- 100 :: int) \<noteq> 100 - 100"
  using run_a by (simp add: nodes_a final_a_def example_node_def)

text \<open>
  Claim C1 (amended). In a Layer network with exactly one node named Shape and no node
  named Cull, the Layer branch draws exactly one id more than the network has nodes and
  stores two nodes for the Shape node: under its new id the original, renamed Cull, with
  the single input \<^verbatim>\<open>Node\<close> of the extra id, at its original X minus (shift_left + indent);
  and under the extra id the duplicate, still named Shape, with the renumbered inputs, at
  its original X minus (shift_left + 8 + indent). The horizontal offset between the two
  is therefore 8. If the network has a node named Cull, a Shape node is stored under its
  new id with every field as it was except its inputs, which are renumbered, and its
  position, and no extra id is drawn.
\<close>

theorem shape_cull_insertion:
  assumes "update_network h network indent y s = Inr (out, s')"
    and "outputs network = out_id # rest"
    and "map_of (nodes network) out_id = Some output_node"
    and "i < length (node_set h network)"
    and "map_of (nodes network) (node_set h network ! i) = Some n"
    and "name n = ''Shape''"
  shows "((\<forall>k m. map_of (nodes network) k = Some m \<longrightarrow> name m \<noteq> ''Cull'') \<and>
          (\<forall>k m. map_of (nodes network) k = Some m \<longrightarrow> name m = ''Shape'' \<longrightarrow>
                 k = node_set h network ! i) \<longrightarrow>
          new_id s' = new_id s + int (length (node_set h network)) + 1 \<and>
          (\<exists>ins. renumber_inputs (fst (zip_new_id (node_set h network) s)) (inputs n) = Inr ins \<and>
             map_of (new_nodes s') (new_id s + int i) =
               Some (n\<lparr>name := ''Cull'',
                       inputs := [Node (new_id s + int (length (node_set h network))) 0 False],
                       manual_composition := footprint,
                       has_primary_output := True,
                       implementation := cull_implementation,
                       position := (fst (position n) - (fst (position output_node) + indent), y)\<rparr>) \<and>
             map_of (new_nodes s') (new_id s + int (length (node_set h network))) =
               Some (n\<lparr>inputs := ins,
                       position :=
                         (fst (position n) - (fst (position output_node) + 8 + indent), y)\<rparr>))) \<and>
         ((\<exists>k m. map_of (nodes network) k = Some m \<and> name m = ''Cull'') \<longrightarrow>
          new_id s' = new_id s + int (length (node_set h network)) \<and>
          (\<exists>ins. renumber_inputs (fst (zip_new_id (node_set h network) s)) (inputs n) = Inr ins \<and>
             map_of (new_nodes s') (new_id s + int i) =
               Some (n\<lparr>inputs := ins,
                       position := (fst (position n) - (fst (position output_node) + indent), y)\<rparr>)))"
proof (intro conjI impI)
  assume a: "(\<forall>k m. map_of (nodes network) k = Some m \<longrightarrow> name m \<noteq> ''Cull'') \<and>
          (\<forall>k m. map_of (nodes network) k = Some m \<longrightarrow> name m = ''Shape'' \<longrightarrow>
                 k = node_set h network ! i)"
  note r = shape_without_cull[OF assms conjunct1[OF a] conjunct2[OF a]]
  from r show "new_id s' = new_id s + int (length (node_set h network)) + 1" by simp
  from r show "\<exists>ins. renumber_inputs (fst (zip_new_id (node_set h network) s)) (inputs n) = Inr ins \<and>
             map_of (new_nodes s') (new_id s + int i) =
               Some (n\<lparr>name := ''Cull'',
                       inputs := [Node (new_id s + int (length (node_set h network))) 0 False],
                       manual_composition := footprint,
                       has_primary_output := True,
                       implementation := cull_implementation,
                       position := (fst (position n) - (fst (position output_node) + indent), y)\<rparr>) \<and>
             map_of (new_nodes s') (new_id s + int (length (node_set h network))) =
               Some (n\<lparr>inputs := ins,
                       position :=
                         (fst (position n) - (fst (position output_node) + 8 + indent), y)\<rparr>)"
    by (simp add: cull_result_def dup_result_def)
next
  assume "\<exists>k m. map_of (nodes network) k = Some m \<and> name m = ''Cull''"
  then obtain kc c where c: "map_of (nodes network) kc = Some c" "name c = ''Cull''" by blast
  note r = shape_with_cull[OF assms c]
  from r show "new_id s' = new_id s + int (length (node_set h network))" by simp
  from r show "\<exists>ins. renumber_inputs (fst (zip_new_id (node_set h network) s)) (inputs n) = Inr ins \<and>
             map_of (new_nodes s') (new_id s + int i) =
               Some (n\<lparr>inputs := ins,
                       position := (fst (position n) - (fst (position output_node) + indent), y)\<rparr>)"
    by simp
qed

theorem shape_cull_insertion_witness:
  "update_network id network_a 0 10 state_a = Inr (46, final_a) \<and>
   new_id final_a = new_id state_a + int (length (node_set id network_a)) + 1 \<and>
   map_option name (map_of (new_nodes final_a) 44) = Some ''Cull'' \<and>
   map_option inputs (map_of (new_nodes final_a) 44) = Some [Node 47 0 False] \<and>
   map_option name (map_of (new_nodes final_a) 47) = Some ''Shape'' \<and>
   update_network id network_c 0 10 state_a = Inr (45, final_c) \<and>
   new_id final_c = new_id state_a + int (length (node_set id network_c)) \<and>
   map_option name (map_of (new_nodes final_c) 44) = Some ''Shape''"
proof -
  have a2: "outputs network_a = 0 # []" by (simp add: outputs_a)
  have a3: "map_of (nodes network_a) 0 = Some (example_node ''Output'' [Node 3 0 False] 200 0)"
    by (simp add: nodes_a)
  have a4: "0 < length (node_set id network_a)" by (simp add: node_set_a)
  have a5: "map_of (nodes network_a) (node_set id network_a ! 0) =
      Some (example_node ''Shape'' [Value (JStr ''path'') False] 50 1)"
    by (simp add: node_set_a nodes_a)
  have a6: "name (example_node ''Shape'' [Value (JStr ''path'') False] 50 1) = ''Shape''"
    by (simp add: example_node_def)
  have a7: "(\<forall>k m. map_of (nodes network_a) k = Some m \<longrightarrow> name m \<noteq> ''Cull'') \<and>
      (\<forall>k m. map_of (nodes network_a) k = Some m \<longrightarrow> name m = ''Shape'' \<longrightarrow>
             k = node_set id network_a ! 0)"
    by (auto simp: nodes_a node_set_a example_node_def split: if_splits)
  have c2: "outputs network_c = 0 # []" by (simp add: outputs_c)
  have c3: "map_of (nodes network_c) 0 = Some (example_node ''Output'' [Node 2 0 False] 200 0)"
    by (simp add: nodes_c)
  have c4: "0 < length (node_set id network_c)" by (simp add: node_set_c)
  have c5: "map_of (nodes network_c) (node_set id network_c ! 0) =
      Some (example_node ''Shape'' [Node 3 0 False] 50 1)"
    by (simp add: node_set_c nodes_c)
  have c6: "name (example_node ''Shape'' [Node 3 0 False] 50 1) = ''Shape''"
    by (simp add: example_node_def)
  have c7: "\<exists>k m. map_of (nodes network_c) k = Some m \<and> name m = ''Cull''"
    by (rule exI[of _ 2]) (simp add: nodes_c example_node_def)
  from shape_cull_insertion [OF run_a a2 a3 a4 a5 a6] a7
  have A: "new_id final_a = new_id state_a + int (length (node_set id network_a)) + 1" by blast
  from shape_cull_insertion [OF run_c c2 c3 c4 c5 c6] c7
  have C: "new_id final_c = new_id state_a + int (length (node_set id network_c))" by blast
  show ?thesis
    using A C run_a run_c by (simp add: final_a_def final_c_def example_node_def)
qed

theorem shape_cull_offset_counterexample:
  "update_network id network_a 0 10 state_a = Inr (46, final_a) \<and>
   map_option position (map_of (nodes network_a) 0) = Some (200, 0) \<and>
   map_option (fst \<circ> position) (map_of (new_nodes final_a) 44) = Some (- 150) \<and>
   map_option (fst \<circ> position) (map_of (new_nodes final_a) 47) = Some (- 158) \<and>
   (- 150 :: int) - (- 158) \<noteq> 200 + 8 + 0 \<and>
   update_network id network_c 0 10 state_a = Inr (45, final_c) \<and>
   map_option inputs (map_of (nodes network_c) 1) = Some [Node 3 0 False] \<and>
   map_option inputs (map_of (new_nodes final_c) 44) = Some [Node 46 0 False]"
  using run_a run_c
  by (simp add: nodes_a nodes_c final_a_def final_c_def example_node_def)

lemma emitted_name_cases:
  assumes "emitted net new_ids sl indent y lo hi nn' net' k" "map_of new_ids k = Some nid"
    "map_option name (map_of net k) = Some ''Shape''"
  shows "map_option name (map_of nn' nid) = Some ''Shape'' \<or>
         map_option name (map_of nn' nid) = Some ''Cull''"
  using assms(1)
  by (cases rule: emitted_cases) (use assms(2,3) in auto)

text \<open>
  Claim C7. In a Layer network with no node named Cull and two (or more) nodes named
  Shape, one pass draws exactly one id for a duplicate, and of any two distinct Shape
  nodes at most one is stored renamed to Cull: the other is stored still named Shape.
\<close>

theorem at_most_one_shape_becomes_cull:
  assumes "update_network h network indent y s = Inr (out, s')"
    and "\<forall>k m. map_of (nodes network) k = Some m \<longrightarrow> name m \<noteq> ''Cull''"
    and "i < length (node_set h network)" and "j < length (node_set h network)" and "i \<noteq> j"
    and "map_option name (map_of (nodes network) (node_set h network ! i)) = Some ''Shape''"
    and "map_option name (map_of (nodes network) (node_set h network ! j)) = Some ''Shape''"
  shows "new_id s' = new_id s + int (length (node_set h network)) + 1 \<and>
    (map_option name (map_of (new_nodes s') (new_id s + int i)) = Some ''Cull'' \<and>
     map_option name (map_of (new_nodes s') (new_id s + int j)) = Some ''Shape'' \<or>
     map_option name (map_of (new_nodes s') (new_id s + int i)) = Some ''Shape'' \<and>
     map_option name (map_of (new_nodes s') (new_id s + int j)) = Some ''Cull'' \<or>
     map_option name (map_of (new_nodes s') (new_id s + int i)) = Some ''Shape'' \<and>
     map_option name (map_of (new_nodes s') (new_id s + int j)) = Some ''Shape'')"
proof -
  let ?ns = "node_set h network"
  let ?ids = "new_ids_of ?ns (new_id s)"
  from assms(6) obtain n where n: "map_of (nodes network) (?ns ! i) = Some n" "name n = ''Shape''"
    by auto
  have c: "new_id s' = new_id s + int (length ?ns) + 1"
    by (rule exactly_one_cull[OF assms(1,2) n])
  from assms(1) obtain out_id rest and output_node :: node where
    out: "outputs network = out_id # rest" "map_of (nodes network) out_id = Some output_node"
    by (rule update_network_output)
  from assms(1) out obtain net' where
    em': "\<forall>k\<in>set ?ns.
       emitted (nodes network) ?ids (fst (position output_node)) indent y
         (new_id s + int (length ?ns)) (new_id s') (new_nodes s') net' k"
    by (rule update_network_loop)
  have nm: "map_option name (map_of (new_nodes s') (new_id s + int a)) = Some ''Shape'' \<or>
      map_option name (map_of (new_nodes s') (new_id s + int a)) = Some ''Cull''"
    if "a < length ?ns" "map_option name (map_of (nodes network) (?ns ! a)) = Some ''Shape''" for a
  proof -
    have "emitted (nodes network) ?ids (fst (position output_node)) indent y
         (new_id s + int (length ?ns)) (new_id s') (new_nodes s') net' (?ns ! a)"
      using em' that(1) by simp
    then show ?thesis
      by (rule emitted_name_cases[OF _ new_ids_of_nth[OF node_set_distinct that(1)] that(2)])
  qed
  have "\<not> (map_option name (map_of (new_nodes s') (new_id s + int i)) = Some ''Cull'' \<and>
      map_option name (map_of (new_nodes s') (new_id s + int j)) = Some ''Cull'')"
    using at_most_one_cull[OF assms(1,3,4) assms(6) _ assms(7)] assms(5) by blast
  with nm[OF assms(3,6)] nm[OF assms(4,7)] c show ?thesis by blast
qed

theorem at_most_one_shape_becomes_cull_witness:
  "update_network id network_b 0 10 state_a = Inr (46, final_b) \<and>
   0 < length (node_set id network_b) \<and> 1 < length (node_set id network_b) \<and> (0 :: nat) \<noteq> 1 \<and>
   map_option name (map_of (nodes network_b) (node_set id network_b ! 0)) = Some ''Shape'' \<and>
   map_option name (map_of (nodes network_b) (node_set id network_b ! 1)) = Some ''Shape'' \<and>
   new_id final_b = new_id state_a + int (length (node_set id network_b)) + 1 \<and>
   map_option name (map_of (new_nodes final_b) (new_id state_a + int 0)) = Some ''Cull'' \<and>
   map_option name (map_of (new_nodes final_b) (new_id state_a + int 1)) = Some ''Shape''"
proof -
  have b2: "\<forall>k m. map_of (nodes network_b) k = Some m \<longrightarrow> name m \<noteq> ''Cull''"
    by (auto simp: nodes_b example_node_def split: if_splits)
  have b3: "0 < length (node_set id network_b)" and b4: "1 < length (node_set id network_b)"
    by (simp_all add: node_set_b)
  have b5: "(0 :: nat) \<noteq> 1" by simp
  have b6: "map_option name (map_of (nodes network_b) (node_set id network_b ! 0)) = Some ''Shape''"
    and b7: "map_option name (map_of (nodes network_b) (node_set id network_b ! 1)) = Some ''Shape''"
    by (simp_all add: node_set_b nodes_b example_node_def)
  from at_most_one_shape_becomes_cull [OF run_b b2 b3 b4 b5 b6 b7]
  have "new_id final_b = new_id state_a + int (length (node_set id network_b)) + 1" by blast
  then show ?thesis
    using run_b b3 b4 b6 b7 by (simp add: final_b_def state_a_def example_node_def)
qed

lemma plain_result_bookkeeping [simp]:
  "skip_deduplication (plain_result ins sl indent y n) = skip_deduplication n"
  "world_state_hash (plain_result ins sl indent y n) = world_state_hash n"
  "path (plain_result ins sl indent y n) = path n"
  "inputs (plain_result ins sl indent y n) = ins"
  by (simp_all add: plain_result_def fix_transform_def)

lemma cull_result_bookkeeping [simp]:
  "skip_deduplication (cull_result shape sl indent y n) = skip_deduplication n"
  "world_state_hash (cull_result shape sl indent y n) = world_state_hash n"
  "path (cull_result shape sl indent y n) = path n"
  "inputs (cull_result shape sl indent y n) = [Node shape 0 False]"
  by (simp_all add: cull_result_def)

lemma dup_result_bookkeeping [simp]:
  "skip_deduplication (dup_result ins sl indent y n) = skip_deduplication n"
  "world_state_hash (dup_result ins sl indent y n) = world_state_hash n"
  "path (dup_result ins sl indent y n) = path n"
  by (simp_all add: dup_result_def)



text \<open>
  Claim C4. When \<^verbatim>\<open>migrate\<close> completes, every node id in a \<^verbatim>\<open>"Node"\<close> input of a node
  of the final mapping is a key of the mapping; and no call of \<^verbatim>\<open>update_layer\<close>, on any
  input and in any state, fails its assertion, that is, \<^verbatim>\<open>output\<close> is \<^verbatim>\<open>None\<close> or a key
  of the mapping whenever the assertion is reached.
\<close>

theorem no_dangling_references:
  "(migrate h root_data s0 = Inr (doc, s1) \<longrightarrow>
      (\<forall>k m r oi l. map_of (document_network_nodes doc) k = Some m \<longrightarrow>
         Node r oi l \<in> set (inputs m) \<longrightarrow> r \<in> fst ` set (document_network_nodes doc))) \<and>
   update_layer h d indent layer_node_id next_id s \<noteq> Inl AssertionError"
proof (intro conjI impI allI)
  fix k m r oi l
  assume "migrate h root_data s0 = Inr (doc, s1)"
    and m: "map_of (document_network_nodes doc) k = Some m" and r: "Node r oi l \<in> set (inputs m)"
  then have "refs_within (fst ` set (document_network_nodes doc)) (document_network_nodes doc)"
    by (simp add: migrate_refs)
  with m have "node_refs m \<subseteq> fst ` set (document_network_nodes doc)"
    unfolding refs_within_def by blast
  with r show "r \<in> fst ` set (document_network_nodes doc)"
    unfolding node_refs_def by blast
next
  show "update_layer h d indent layer_node_id next_id s \<noteq> Inl AssertionError"
    by (rule update_layer_no_assert)
qed

theorem no_dangling_references_witness:
  "migrate id root_b state_a =
     Inr (\<lparr>document_network_outputs = [(0, 0)], document_network_nodes = nodes_b_out\<rparr>,
          \<lparr>new_id = 50, y_position = 16, new_nodes = nodes_b_out\<rparr>) \<and>
   map_of nodes_b_out 47 =
     Some ((example_node ''Transform'' [Node 46 0 False, Value (JInt 0) False] (- 130) 13)
             \<lparr>manual_composition := footprint, implementation := transform_implementation\<rparr>) \<and>
   Node 46 0 False \<in> set (inputs
     ((example_node ''Transform'' [Node 46 0 False, Value (JInt 0) False] (- 130) 13)
             \<lparr>manual_composition := footprint, implementation := transform_implementation\<rparr>)) \<and>
   46 \<in> fst ` set nodes_b_out"
proof -
  let ?doc = "\<lparr>document_network_outputs = [(0, 0)], document_network_nodes = nodes_b_out\<rparr>"
  let ?m = "(example_node ''Transform'' [Node 46 0 False, Value (JInt 0) False] (- 130) 13)
             \<lparr>manual_composition := footprint, implementation := transform_implementation\<rparr>"
  have w1: "migrate id root_b state_a =
     Inr (?doc, \<lparr>new_id = 50, y_position = 16, new_nodes = nodes_b_out\<rparr>)"
    by (rule run_root_b)
  have w2: "map_of (document_network_nodes ?doc) 47 = Some ?m"
    by (simp add: nodes_b_out_def)
  have w3: "Node 46 0 False \<in> set (inputs ?m)" by (simp add: example_node_def)
  from no_dangling_references [of id root_b state_a ?doc _ root_b 0 0 None state_a] w1 w2 w3
  have "46 \<in> fst ` set (document_network_nodes ?doc)" by blast
  with w1 w2 w3 show ?thesis by simp
qed



text \<open>
  Claim C2 (amended). For a Folder with N children \<^verbatim>\<open>update_layer\<close> completes only if
  N is at least 1. Before any recursion it draws N + 1 ids from the generator: the first
  N, consecutive from the generator's value c, are the reserved ids and the last is
  dropped. It then visits the children in reverse declared order; the child visited at
  position i receives c + i as \<^verbatim>\<open>layer_node_id\<close> and c + i + 1 as \<^verbatim>\<open>next_id\<close>, or
  \<^verbatim>\<open>None\<close> if it is visited last, each visit starting in the state the one before left:
  the \<^verbatim>\<open>next_id\<close> references chain the children in visiting order, each once, ending in
  \<^verbatim>\<open>None\<close>. The Folder's own \<^verbatim>\<open>output\<close> is c, the id passed to the child visited first,
  and (with no \<^verbatim>\<open>"Layer"\<close> key beside the \<^verbatim>\<open>"Folder"\<close> key) it is what the Folder's
  wrapper node references.
\<close>

theorem folder_reserves_and_chains:
  assumes "update_layer h (Data (Some layers) layer) indent layer_node_id next_id s = Inr s'"
  shows "layers \<noteq> [] \<and>
    new_layer_ids layers (snd (next_y_position s)) =
      (map (\<lambda>i. new_id s + int i) [0..<length layers],
       s\<lparr>y_position := y_position s + 3, new_id := new_id s + int (length layers) + 1\<rparr>) \<and>
    (\<exists>sts. length sts = length layers + 1 \<and>
       sts ! 0 = s\<lparr>y_position := y_position s + 3, new_id := new_id s + int (length layers) + 1\<rparr> \<and>
       (\<forall>i<length layers.
          update_layer h (rev layers ! i) (indent + 5) (new_id s + int i)
            (if i + 1 < length layers then Some (new_id s + int i + 1) else None) (sts ! i) =
          Inr (sts ! (i + 1))) \<and>
       (layer = None \<longrightarrow>
          s' = (sts ! length layers)\<lparr>new_nodes :=
                 AList.update layer_node_id
                   (layer_node (Some (new_id s)) next_id indent (y_position s))
                   (new_nodes (sts ! length layers))\<rparr>))"
proof -
  let ?s0 = "s\<lparr>y_position := y_position s + 3\<rparr>"
  let ?N = "length layers"
  let ?ids = "map (\<lambda>i. new_id s + int i) [0..<?N]"
  let ?s2 = "s\<lparr>y_position := y_position s + 3, new_id := new_id s + int ?N + 1\<rparr>"
  from assms obtain output1 s4 outp s6 where
    fs: "folder_step h (Some layers) indent ?s0 = Inr (output1, s4)" and
    ls: "layer_step h layer indent (y_position s) output1 s4 = Inr (outp, s6)" and
    st: "store_layer_node outp next_id indent (y_position s) layer_node_id s6 = Inr s'"
    by (rule update_layer_Inr)
  from fs have ne: "layers \<noteq> []" and o1: "output1 = Some (new_id s)" and
    u: "update_folder_layers h ?ids indent 0 (rev layers) ?s2 = Inr s4"
    by (cases rule: folder_step_Inr; simp)+
  have res: "new_layer_ids layers (snd (next_y_position s)) = (?ids, ?s2)"
    by (simp add: new_layer_ids_eq next_y_position_def)
  from update_folder_layers_calls[OF u] obtain sts where
    l: "length sts = Suc ?N" and z: "sts ! 0 = ?s2" and e: "sts ! ?N = s4" and
    c: "\<forall>i<?N. 0 + i < length ?ids \<and>
       update_layer h (rev layers ! i) (indent + 5) (?ids ! (0 + i)) (next_index ?ids (0 + i)) (sts ! i) =
       Inr (sts ! Suc i)"
    by auto
  have nx: "next_index ?ids i = (if i + 1 < ?N then Some (new_id s + int i + 1) else None)" for i
    by (simp add: next_index_def add.assoc)
  have calls: "\<forall>i<?N. update_layer h (rev layers ! i) (indent + 5) (new_id s + int i)
            (if i + 1 < ?N then Some (new_id s + int i + 1) else None) (sts ! i) =
          Inr (sts ! (i + 1))"
  proof (intro allI impI)
    fix i assume i: "i < ?N"
    from c[rule_format, OF i] i have "update_layer h (rev layers ! i) (indent + 5) (new_id s + int i)
        (next_index ?ids i) (sts ! i) = Inr (sts ! Suc i)" by simp
    then show "update_layer h (rev layers ! i) (indent + 5) (new_id s + int i)
            (if i + 1 < ?N then Some (new_id s + int i + 1) else None) (sts ! i) =
          Inr (sts ! (i + 1))"
      unfolding nx by simp
  qed
  have fin: "s' = (sts ! ?N)\<lparr>new_nodes :=
                 AList.update layer_node_id
                   (layer_node (Some (new_id s)) next_id indent (y_position s))
                   (new_nodes (sts ! ?N))\<rparr>" if "layer = None"
    using that ls st o1 e by (simp add: layer_step_def store_layer_node_def split: if_splits)
  have l': "length sts = ?N + 1" using l by simp
  from ne res l' z calls fin show ?thesis by blast
qed

theorem folder_reserves_and_chains_witness:
  "update_layer id (Data (Some [Data None (Some network_a), Data None None]) None) 0 42 None
     \<lparr>new_id = 43, y_position = 7, new_nodes = []\<rparr> =
     Inr \<lparr>new_id = 50, y_position = 16, new_nodes = take 7 nodes_b_out\<rparr> \<and>
   [Data None (Some network_a), Data None None] \<noteq> [] \<and>
   new_layer_ids [Data None (Some network_a), Data None None]
     (snd (next_y_position \<lparr>new_id = 43, y_position = 7, new_nodes = []\<rparr>)) =
     ([43, 44], \<lparr>new_id = 46, y_position = 10, new_nodes = []\<rparr>)"
proof -
  have w: "update_layer id (Data (Some [Data None (Some network_a), Data None None]) None) 0 42 None
     \<lparr>new_id = 43, y_position = 7, new_nodes = []\<rparr> =
     Inr \<lparr>new_id = 50, y_position = 16, new_nodes = take 7 nodes_b_out\<rparr>"
    using run_layer_b by (simp only: root_b_def)
  from folder_reserves_and_chains [OF w]
  have "[Data None (Some network_a), Data None None] \<noteq> [] \<and>
    new_layer_ids [Data None (Some network_a), Data None None]
      (snd (next_y_position \<lparr>new_id = 43, y_position = 7, new_nodes = []\<rparr>)) =
      (map (\<lambda>i. new_id \<lparr>new_id = 43, y_position = 7, new_nodes = []\<rparr> + int i)
         [0..<length [Data None (Some network_a), Data None None]],
       \<lparr>new_id = 43, y_position = 7, new_nodes = []\<rparr>
         \<lparr>y_position := y_position \<lparr>new_id = 43, y_position = 7, new_nodes = []\<rparr> + 3,
          new_id := new_id \<lparr>new_id = 43, y_position = 7, new_nodes = []\<rparr> +
            int (length [Data None (Some network_a), Data None None]) + 1\<rparr>)"
    by blast
  with w show ?thesis by (simp add: upt_rec)
qed

theorem folder_reserves_counterexample:
  "new_layer_ids [Data None None] \<lparr>new_id = 43, y_position = 10, new_nodes = []\<rparr> =
     ([43], \<lparr>new_id = 45, y_position = 10, new_nodes = []\<rparr>) \<and>
   length [Data None None] = 1 \<and> (45 :: int) - 43 \<noteq> 1 \<and>
   migrate id (Data (Some [Data None (Some network_a), Data None None]) None) state_a =
     Inr (\<lparr>document_network_outputs = [(0, 0)], document_network_nodes = nodes_b_out\<rparr>,
          \<lparr>new_id = 50, y_position = 16, new_nodes = nodes_b_out\<rparr>) \<and>
   map_of nodes_b_out 42 = Some (layer_node (Some 43) None 0 7) \<and>
   map_of nodes_b_out 43 = Some (layer_node None (Some 44) 5 10) \<and>
   map_of nodes_b_out 44 = Some (layer_node (Some 48) None 5 13)"
  using run_root_b [of state_a]
  by (simp add: root_b_def next_new_id_def nodes_b_out_def)

end
